theory Spec2Isabelle
  imports Complex_Main
begin

section \<open>Python values and exceptions\<close>

text \<open>
  The exceptions that the program and the library calls it makes can raise; all of them
  are subclasses of \<open>Exception\<close>. A function that can raise returns \<open>error + 'a\<close>, with
  \<open>Inl\<close> for the exception.
\<close>

datatype error =
  ValueError | IndexError | KeyError | OverflowError | ZoneInfoNotFoundError | OSError |
  TTFError

text \<open>
  Subscripting a Python list: an index below zero counts from the end of the list, and an
  index outside the list raises IndexError.
\<close>

definition py_index :: "'a list \<Rightarrow> int \<Rightarrow> error + 'a" where
  "py_index xs i =
     (if 0 \<le> i \<and> i < int (length xs) then Inr (xs ! nat i)
      else if i < 0 \<and> - int (length xs) \<le> i then Inr (xs ! nat (int (length xs) + i))
      else Inl IndexError)"

text \<open>
  The decimal rendering of an integer inside an f-string (\<open>f"{n}"\<close>): the digits, most
  significant first, with a minus sign for a negative number and no padding.
  A Python \<open>str\<close> is a sequence of code points; every character of this program is
  below 256, so a \<open>char\<close> stands for its code point.
\<close>

definition digit_chars :: string where
  "digit_chars = ''0123456789''"

fun digits :: "nat \<Rightarrow> string" where
  "digits n = (if n < 10 then [digit_chars ! n]
               else digits (n div 10) @ [digit_chars ! (n mod 10)])"

declare digits.simps [simp del]

definition py_str :: "int \<Rightarrow> string" where
  "py_str i = (if i < 0 then CHR ''-'' # digits (nat (- i)) else digits (nat i))"

section \<open>Calendar dates\<close>

text \<open>
  \<open>datetime.date\<close> of the standard library, as CPython implements it: a year, a month
  and a day of the proleptic Gregorian calendar, checked by the constructor; ordered as
  the triple (year, month, day); \<open>toordinal\<close> counts days from 0001-01-01 = 1 and
  \<open>weekday\<close> is Monday = 0 .. Sunday = 6.
\<close>

record date =
  year :: int
  month :: int
  day :: int

definition MINYEAR :: int where "MINYEAR = 1"
definition MAXYEAR :: int where "MAXYEAR = 9999"

definition is_leap :: "int \<Rightarrow> bool" where
  "is_leap y = (y mod 4 = 0 \<and> (y mod 100 \<noteq> 0 \<or> y mod 400 = 0))"

definition DAYS_IN_MONTH :: "int list" where
  "DAYS_IN_MONTH = [0, 31, 28, 31, 30, 31, 30, 31, 31, 30, 31, 30, 31]"

definition DAYS_BEFORE_MONTH :: "int list" where
  "DAYS_BEFORE_MONTH = [0, 0, 31, 59, 90, 120, 151, 181, 212, 243, 273, 304, 334]"

definition days_in_month :: "int \<Rightarrow> int \<Rightarrow> int" where
  "days_in_month y m = (if m = 2 \<and> is_leap y then 29 else DAYS_IN_MONTH ! nat m)"

definition days_before_month :: "int \<Rightarrow> int \<Rightarrow> int" where
  "days_before_month y m =
     DAYS_BEFORE_MONTH ! nat m + (if m > 2 \<and> is_leap y then 1 else 0)"

definition days_before_year :: "int \<Rightarrow> int" where
  "days_before_year y = (y - 1) * 365 + (y - 1) div 4 - (y - 1) div 100 + (y - 1) div 400"

definition ymd_to_ord :: "int \<Rightarrow> int \<Rightarrow> int \<Rightarrow> int" where
  "ymd_to_ord y m d = days_before_year y + days_before_month y m + d"

definition valid_date :: "date \<Rightarrow> bool" where
  "valid_date d =
     (MINYEAR \<le> year d \<and> year d \<le> MAXYEAR \<and> 1 \<le> month d \<and> month d \<le> 12 \<and>
      1 \<le> day d \<and> day d \<le> days_in_month (year d) (month d))"

text \<open>The constructor \<open>date(y, m, d)\<close>: ValueError unless the triple is a calendar date.\<close>

definition date_new :: "int \<Rightarrow> int \<Rightarrow> int \<Rightarrow> error + date" where
  "date_new y m d =
     (if valid_date \<lparr>year = y, month = m, day = d\<rparr>
      then Inr \<lparr>year = y, month = m, day = d\<rparr> else Inl ValueError)"

definition toordinal :: "date \<Rightarrow> int" where
  "toordinal d = ymd_to_ord (year d) (month d) (day d)"

definition weekday :: "date \<Rightarrow> int" where
  "weekday d = (toordinal d + 6) mod 7"

text \<open>\<open>a <= b\<close> on dates compares year, then month, then day.\<close>

definition date_le :: "date \<Rightarrow> date \<Rightarrow> bool" where
  "date_le a b =
     (year a < year b \<or>
      (year a = year b \<and> (month a < month b \<or> (month a = month b \<and> day a \<le> day b))))"

text \<open>
  \<open>d + timedelta(days=1)\<close>: the day after \<open>d\<close>. CPython adds one to the day and
  normalises: past the end of the month the date moves to the first of the next month,
  past December to January of the next year, and a year outside MINYEAR..MAXYEAR raises
  OverflowError ("date value out of range").
\<close>

definition date_add_one_day :: "date \<Rightarrow> error + date" where
  "date_add_one_day d =
     (let y = year d; m = month d; n = day d + 1 in
      if n \<le> days_in_month y m then Inr \<lparr>year = y, month = m, day = n\<rparr>
      else if m + 1 \<le> 12 then Inr \<lparr>year = y, month = m + 1, day = 1\<rparr>
      else if MINYEAR \<le> y + 1 \<and> y + 1 \<le> MAXYEAR then Inr \<lparr>year = y + 1, month = 1, day = 1\<rparr>
      else Inl OverflowError)"

section \<open>Configuration\<close>

definition SPANISH_WEEKDAYS :: "string list" where
  "SPANISH_WEEKDAYS =
     [''Lunes'', ''Martes'', ''Mi'' @ [CHR 0xE9] @ ''rcoles'', ''Jueves'', ''Viernes'',
      ''S'' @ [CHR 0xE1] @ ''bado'', ''Domingo'']"

definition SPANISH_MONTHS :: "string list" where
  "SPANISH_MONTHS =
     [''Enero'', ''Febrero'', ''Marzo'', ''Abril'', ''Mayo'', ''Junio'',
      ''Julio'', ''Agosto'', ''Septiembre'', ''Octubre'', ''Noviembre'', ''Diciembre'']"

definition FALLBACK_FONT :: string where
  "FALLBACK_FONT = ''Helvetica''"

definition FONT_CANDIDATES :: "(string \<times> string) list" where
  "FONT_CANDIDATES =
     [(''DejaVuSans'', ''/usr/share/fonts/truetype/dejavu/DejaVuSans.ttf''),
      (''FreeSans'', ''/usr/share/fonts/truetype/freefont/FreeSans.ttf''),
      (''Arial'', ''/usr/share/fonts/truetype/msttcorefonts/Arial.ttf''),
      (''Arial'', ''Arial.ttf'')]"

section \<open>Date utilities\<close>

definition end_of_year :: "date \<Rightarrow> error + date" where
  "end_of_year d = date_new (year d) 12 31"

definition format_date_spanish :: "date \<Rightarrow> error + string" where
  "format_date_spanish d =
     (case py_index SPANISH_WEEKDAYS (weekday d) of
        Inl e \<Rightarrow> Inl e
      | Inr weekday_name \<Rightarrow>
          (case py_index SPANISH_MONTHS (month d - 1) of
             Inl e \<Rightarrow> Inl e
           | Inr month_name \<Rightarrow>
               Inr (weekday_name @ '' '' @ py_str (day d) @ '' '' @ month_name @ '' '' @
                    py_str (year d))))"

section \<open>The environment of a run\<close>

text \<open>
  What the program reads from outside: the file system probed by \<open>os.path.exists\<close>,
  the outcome of registering a TrueType file with the PDF library (\<open>None\<close> when it
  registers, \<open>Some e\<close> when the call raises an exception \<open>e\<close>), whether the import of
  \<open>zoneinfo\<close> succeeded when the module was loaded, today's date in a named time zone
  (\<open>None\<close> when the zone key is not found, where \<open>ZoneInfo(key)\<close> raises), today's
  date on the local clock, the width of a string in a font at a size, and whether the
  output file can be written.
\<close>

record env =
  path_exists :: "string \<Rightarrow> bool"
  register_font :: "string \<Rightarrow> string \<Rightarrow> error option"
  zoneinfo_imported :: bool
  zone_today :: "string \<Rightarrow> date option"
  local_today :: date
  string_width :: "string \<Rightarrow> string \<Rightarrow> int \<Rightarrow> real"
  can_write :: "string \<Rightarrow> bool"

section \<open>The PDF canvas\<close>

text \<open>
  A canvas records the drawing operations of the page being drawn and the pages already
  finished by \<open>showPage\<close>. Coordinates are points, with the origin at the bottom left.
  Python's floats are modelled by the real numbers they denote: comparing an integer
  with a float is exact in Python, and the arithmetic on floats is taken without
  rounding.
\<close>

datatype draw_op =
    SetLineWidth real
  | SetStrokeColorRGB real real real
  | Line real real real real
  | SetFont string int
  | DrawString real real string

record canvas =
  filename :: string
  pagesize :: "real \<times> real"
  code :: "draw_op list"
  pages :: "draw_op list list"

record document =
  doc_path :: string
  doc_pagesize :: "real \<times> real"
  doc_pages :: "draw_op list list"

text \<open>\<open>reportlab.lib.pagesizes.A4\<close>: 210 mm by 297 mm, in points.\<close>

definition A4 :: "real \<times> real" where
  "A4 = (595.2755905511812, 841.8897637795277)"

definition Canvas :: "string \<Rightarrow> real \<times> real \<Rightarrow> canvas" where
  "Canvas path sz = \<lparr>filename = path, pagesize = sz, code = [], pages = []\<rparr>"

definition emit :: "canvas \<Rightarrow> draw_op \<Rightarrow> canvas" where
  "emit cnv op = cnv\<lparr>code := code cnv @ [op]\<rparr>"

definition showPage :: "canvas \<Rightarrow> canvas" where
  "showPage cnv = cnv\<lparr>code := [], pages := pages cnv @ [code cnv]\<rparr>"

text \<open>
  \<open>save\<close> finishes a page that still has operations on it and writes the file; an
  output path that cannot be written raises OSError.
\<close>

definition save :: "env \<Rightarrow> canvas \<Rightarrow> error + document" where
  "save e cnv =
     (let c = (if code cnv \<noteq> [] then showPage cnv else cnv) in
      if can_write e (filename c)
      then Inr \<lparr>doc_path = filename c, doc_pagesize = pagesize c, doc_pages = pages c\<rparr>
      else Inl OSError)"

section \<open>Font handling\<close>

text \<open>
  The loop of \<open>register_readable_font\<close> over the candidates that are left: a candidate
  whose file does not exist is passed over, one whose registration raises is passed
  over by the \<open>except Exception: continue\<close>, and the first one that registers is
  returned together with the font it added to the registry.
\<close>

fun register_candidates :: "env \<Rightarrow> (string \<times> string) list \<Rightarrow> string \<times> (string \<times> string) list" where
  "register_candidates e [] = (FALLBACK_FONT, [])"
| "register_candidates e ((name, path) # rest) =
     (if path_exists e path then
        (case register_font e name path of
           None \<Rightarrow> (name, [(name, path)])
         | Some ex \<Rightarrow> register_candidates e rest)
      else register_candidates e rest)"

definition register_readable_font :: "env \<Rightarrow> string \<times> (string \<times> string) list" where
  "register_readable_font e = register_candidates e FONT_CANDIDATES"

section \<open>Today's date\<close>

definition today_europe_paris :: "env \<Rightarrow> error + date" where
  "today_europe_paris e =
     (if zoneinfo_imported e then
        (case zone_today e ''Europe/Paris'' of
           None \<Rightarrow> Inl ZoneInfoNotFoundError
         | Some d \<Rightarrow> Inr d)
      else Inr (local_today e))"

section \<open>PDF drawing\<close>

text \<open>
  The two \<open>while\<close> loops of \<open>draw_grid\<close>. Nothing bounds the number of iterations when
  the spacing is not positive, so a loop that never ends has the value \<open>None\<close>.
\<close>

partial_function (option) draw_grid_vertical ::
  "canvas \<Rightarrow> real \<Rightarrow> real \<Rightarrow> int \<Rightarrow> int \<Rightarrow> canvas option" where
  "draw_grid_vertical cnv page_w page_h spacing x =
     (if real_of_int x \<le> page_w
      then draw_grid_vertical (emit cnv (Line (real_of_int x) 0 (real_of_int x) page_h))
             page_w page_h spacing (x + spacing)
      else Some cnv)"

partial_function (option) draw_grid_horizontal ::
  "canvas \<Rightarrow> real \<Rightarrow> real \<Rightarrow> int \<Rightarrow> int \<Rightarrow> canvas option" where
  "draw_grid_horizontal cnv page_w stop_y spacing y =
     (if real_of_int y \<le> stop_y
      then draw_grid_horizontal (emit cnv (Line 0 (real_of_int y) page_w (real_of_int y)))
             page_w stop_y spacing (y + spacing)
      else Some cnv)"

definition draw_grid :: "canvas \<Rightarrow> real \<Rightarrow> real \<Rightarrow> int \<Rightarrow> int \<Rightarrow> canvas option" where
  "draw_grid cnv page_w page_h spacing top_margin =
     (let c1 = emit cnv (SetLineWidth 0.2);
          c2 = emit c1 (SetStrokeColorRGB 0.85 0.85 0.85)
      in case draw_grid_vertical c2 page_w page_h spacing 0 of
           None \<Rightarrow> None
         | Some c3 \<Rightarrow>
             draw_grid_horizontal c3 page_w (page_h - real_of_int top_margin) spacing 0)"

text \<open>
  The fonts that the PDF library knows by name: the fourteen standard fonts, always
  there, and the fonts registered so far, given as the list of the (name, path) pairs
  registered. \<open>setFont\<close> and \<open>stringWidth\<close> raise KeyError for any other name.
\<close>

definition standard_fonts :: "string list" where
  "standard_fonts =
     [''Courier'', ''Courier-Bold'', ''Courier-Oblique'', ''Courier-BoldOblique'',
      ''Helvetica'', ''Helvetica-Bold'', ''Helvetica-Oblique'', ''Helvetica-BoldOblique'',
      ''Times-Roman'', ''Times-Bold'', ''Times-Italic'', ''Times-BoldItalic'',
      ''Symbol'', ''ZapfDingbats'']"

definition font_known :: "(string \<times> string) list \<Rightarrow> string \<Rightarrow> bool" where
  "font_known registry font_name =
     (font_name \<in> set standard_fonts \<or> font_name \<in> set (map fst registry))"

definition draw_centered_text_top ::
  "env \<Rightarrow> (string \<times> string) list \<Rightarrow> canvas \<Rightarrow> string \<Rightarrow> real \<Rightarrow> real \<Rightarrow> string \<Rightarrow> int \<Rightarrow> int \<Rightarrow>
   error + canvas" where
  "draw_centered_text_top e registry cnv text page_w page_h font_name font_size top_offset =
     (if font_known registry font_name then
        (let c1 = emit cnv (SetFont font_name font_size);
             text_w = string_width e text font_name font_size
         in Inr (emit c1 (DrawString ((page_w - text_w) / 2)
                            (page_h - real_of_int top_offset) text)))
      else Inl KeyError)"

definition draw_page_number ::
  "env \<Rightarrow> (string \<times> string) list \<Rightarrow> canvas \<Rightarrow> real \<Rightarrow> string \<Rightarrow> int \<Rightarrow> int \<Rightarrow> int \<Rightarrow>
   error + canvas" where
  "draw_page_number e registry cnv page_w font_name number font_size bottom_margin =
     (let label = py_str number in
      if font_known registry font_name then
        (let c1 = emit cnv (SetFont font_name font_size);
             text_w = string_width e label font_name font_size
         in Inr (emit c1 (DrawString ((page_w - text_w) / 2)
                            (real_of_int bottom_margin) label)))
      else Inl KeyError)"

section \<open>Pipeline\<close>

text \<open>
  The \<open>while current <= end\<close> loop of \<open>build_agenda_pdf\<close>, on the state it updates: the
  canvas, the page number and the date cursor. It returns the state in which the loop
  condition fails, the exception that a step raised, or \<open>None\<close> when a grid loop never
  returns.
\<close>

partial_function (option) agenda_loop ::
  "env \<Rightarrow> (string \<times> string) list \<Rightarrow> string \<Rightarrow> int \<Rightarrow> int \<Rightarrow> bool \<Rightarrow> int \<Rightarrow> date \<Rightarrow>
   canvas \<Rightarrow> int \<Rightarrow> date \<Rightarrow> (error + canvas \<times> int \<times> date) option" where
  "agenda_loop e registry font_name spacing header_font_size include_page_numbers top_margin
     end cnv page_num current =
     (if date_le current end then
        (case draw_grid cnv (fst A4) (snd A4) spacing top_margin of
           None \<Rightarrow> None
         | Some c1 \<Rightarrow>
             (case format_date_spanish current of
                Inl ex \<Rightarrow> Some (Inl ex)
              | Inr header_text \<Rightarrow>
                  (case draw_centered_text_top e registry c1 header_text (fst A4) (snd A4)
                          font_name header_font_size (top_margin - 30) of
                     Inl ex \<Rightarrow> Some (Inl ex)
                   | Inr c2 \<Rightarrow>
                       (case (if include_page_numbers
                              then draw_page_number e registry c2 (fst A4) font_name
                                     page_num 10 20
                              else Inr c2) of
                          Inl ex \<Rightarrow> Some (Inl ex)
                        | Inr c3 \<Rightarrow>
                            (case date_add_one_day current of
                               Inl ex \<Rightarrow> Some (Inl ex)
                             | Inr next_day \<Rightarrow>
                                 agenda_loop e registry font_name spacing header_font_size
                                   include_page_numbers top_margin end (showPage c3)
                                   (page_num + 1) next_day)))))
      else Some (Inr (cnv, page_num, current)))"

text \<open>
  \<open>build_agenda_pdf\<close>. The process starts with no font registered, so the fonts known
  while the pages are drawn are the standard ones and the one that
  \<open>register_readable_font\<close> has registered.
\<close>

definition build_agenda_pdf ::
  "env \<Rightarrow> string \<Rightarrow> date option \<Rightarrow> int \<Rightarrow> int \<Rightarrow> bool \<Rightarrow> int \<Rightarrow>
   (error + document \<times> string) option" where
  "build_agenda_pdf e output_path start_date spacing header_font_size include_page_numbers
     top_margin =
     (case (case start_date of Some d \<Rightarrow> Inr d | None \<Rightarrow> today_europe_paris e) of
        Inl ex \<Rightarrow> Some (Inl ex)
      | Inr start \<Rightarrow>
          (case end_of_year start of
             Inl ex \<Rightarrow> Some (Inl ex)
           | Inr end \<Rightarrow>
               (let font_name = fst (register_readable_font e);
                    registry = snd (register_readable_font e);
                    cnv = Canvas output_path A4
                in case agenda_loop e registry font_name spacing header_font_size
                          include_page_numbers top_margin end cnv 1 start of
                     None \<Rightarrow> None
                   | Some (Inl ex) \<Rightarrow> Some (Inl ex)
                   | Some (Inr (cnv', page_num, current)) \<Rightarrow>
                       (case save e cnv' of
                          Inl ex \<Rightarrow> Some (Inl ex)
                        | Inr doc \<Rightarrow>
                            Some (Inr (doc, ''[DONE] Agenda saved to '' @ output_path))))))"

section \<open>Specification-level notions\<close>

text \<open>
  The definitions of this section are not part of the program: they name what the
  statements below are about.
\<close>

text \<open>\<open>a < b\<close> on dates.\<close>

definition date_lt :: "date \<Rightarrow> date \<Rightarrow> bool" where
  "date_lt a b =
     (year a < year b \<or>
      (year a = year b \<and> (month a < month b \<or> (month a = month b \<and> day a < day b))))"

text \<open>The date \<open>n\<close> days after \<open>d\<close>, as long as the calendar does not end.\<close>

fun date_plus :: "date \<Rightarrow> nat \<Rightarrow> date" where
  "date_plus d 0 = d"
| "date_plus d (Suc n) =
     (case date_add_one_day d of Inl ex \<Rightarrow> d | Inr d' \<Rightarrow> date_plus d' n)"

text \<open>The number of calendar days in the closed interval from \<open>a\<close> to \<open>b\<close>.\<close>

definition days_in_interval :: "date \<Rightarrow> date \<Rightarrow> nat" where
  "days_in_interval a b = nat (toordinal b - toordinal a + 1)"

text \<open>
  The grid as the specification describes it: the vertical line number \<open>k\<close> at
  \<open>x = k * spacing\<close>, the horizontal line number \<open>k\<close> at \<open>y = k * spacing\<close>, and the
  numbers \<open>k\<close> of the lines from 0 up to a limit: those with \<open>0 \<le> k\<close> and
  \<open>k * spacing \<le> limit\<close>.
\<close>

definition vline :: "real \<Rightarrow> int \<Rightarrow> int \<Rightarrow> draw_op" where
  "vline page_h spacing k =
     Line (real_of_int (k * spacing)) 0 (real_of_int (k * spacing)) page_h"

definition hline :: "real \<Rightarrow> int \<Rightarrow> int \<Rightarrow> draw_op" where
  "hline page_w spacing k =
     Line 0 (real_of_int (k * spacing)) page_w (real_of_int (k * spacing))"

definition line_indices :: "int \<Rightarrow> real \<Rightarrow> int list" where
  "line_indices spacing limit = [0..\<lfloor>limit / real_of_int spacing\<rfloor>]"

definition grid_ops :: "real \<Rightarrow> real \<Rightarrow> int \<Rightarrow> int \<Rightarrow> draw_op list" where
  "grid_ops page_w page_h spacing top_margin =
     [SetLineWidth 0.2, SetStrokeColorRGB 0.85 0.85 0.85] @
     map (vline page_h spacing) (line_indices spacing page_w) @
     map (hline page_w spacing) (line_indices spacing (page_h - real_of_int top_margin))"

text \<open>
  A drawn line enters the header band when one of its end points lies above
  \<open>page_h - top_margin\<close>.
\<close>

definition enters_header_band :: "real \<Rightarrow> int \<Rightarrow> draw_op \<Rightarrow> bool" where
  "enters_header_band page_h top_margin op =
     (case op of
        Line x1 y1 x2 y2 \<Rightarrow>
          page_h - real_of_int top_margin < y1 \<or> page_h - real_of_int top_margin < y2
      | _ \<Rightarrow> False)"

text \<open>The operations of one page of the agenda: the grid, the header, the page number.\<close>

definition header_ops :: "env \<Rightarrow> string \<Rightarrow> int \<Rightarrow> int \<Rightarrow> string \<Rightarrow> draw_op list" where
  "header_ops e font_name font_size top_margin header_text =
     [SetFont font_name font_size,
      DrawString ((fst A4 - string_width e header_text font_name font_size) / 2)
        (snd A4 - real_of_int (top_margin - 30)) header_text]"

definition number_ops :: "env \<Rightarrow> string \<Rightarrow> int \<Rightarrow> draw_op list" where
  "number_ops e font_name n =
     [SetFont font_name 10,
      DrawString ((fst A4 - string_width e (py_str n) font_name 10) / 2) 20 (py_str n)]"

definition page_ops ::
  "env \<Rightarrow> string \<Rightarrow> int \<Rightarrow> int \<Rightarrow> bool \<Rightarrow> int \<Rightarrow> date \<Rightarrow> int \<Rightarrow> draw_op list" where
  "page_ops e font_name spacing header_font_size include_page_numbers top_margin d n =
     grid_ops (fst A4) (snd A4) spacing top_margin @
     (case format_date_spanish d of
        Inl ex \<Rightarrow> []
      | Inr header_text \<Rightarrow> header_ops e font_name header_font_size top_margin header_text) @
     (if include_page_numbers then number_ops e font_name n else [])"

text \<open>The start date of a run: the one given, or today's.\<close>

definition resolve_start :: "env \<Rightarrow> date option \<Rightarrow> error + date" where
  "resolve_start e start_date = (case start_date of Some d \<Rightarrow> Inr d | None \<Rightarrow> today_europe_paris e)"

text \<open>The number that a string of decimal digits denotes.\<close>

definition decimal_value :: "string \<Rightarrow> nat" where
  "decimal_value s = foldl (\<lambda>a c. 10 * a + (of_char c - 48)) 0 s"

text \<open>The outcome of a run: whether it returned a document, and the pages of it.\<close>

definition completed :: "(error + document \<times> string) option \<Rightarrow> bool" where
  "completed r = (case r of Some (Inr out) \<Rightarrow> True | _ \<Rightarrow> False)"

definition pages_of_run :: "(error + document \<times> string) option \<Rightarrow> draw_op list list" where
  "pages_of_run r = (case r of Some (Inr out) \<Rightarrow> doc_pages (fst out) | _ \<Rightarrow> [])"




text \<open>
  A machine for the examples: \<open>zoneinfo\<close> can be imported but no time zone data is
  installed, none of the candidate font files exists, the local date is 2025-08-28,
  every path can be written, and a character is half as wide as the font size.
\<close>

definition bare_env :: env where
  "bare_env =
     \<lparr>path_exists = (\<lambda>path. False),
      register_font = (\<lambda>name path. None),
      zoneinfo_imported = True,
      zone_today = (\<lambda>key. None),
      local_today = \<lparr>year = 2025, month = 8, day = 28\<rparr>,
      string_width = (\<lambda>s font_name font_size. real (length s) * real_of_int font_size / 2),
      can_write = (\<lambda>path. True)\<rparr>"

section \<open>Subscripts and decimal digits\<close>

lemma py_index_in_range:
  "0 \<le> i \<Longrightarrow> i < int (length xs) \<Longrightarrow> py_index xs i = Inr (xs ! nat i)"
  by (simp add: py_index_def)

lemma digits_nonempty: "digits n \<noteq> []"
  by (subst digits.simps) simp

lemma digits_no_leading_zero: "0 < n \<Longrightarrow> hd (digits n) \<noteq> CHR ''0''"
proof (induction n rule: digits.induct)
  case (1 n)
  show ?case
  proof (cases "n < 10")
    case True
    with 1(2) have "n \<in> {1, 2, 3, 4, 5, 6, 7, 8, 9}" by auto
    then show ?thesis by (subst digits.simps) (auto simp: digit_chars_def)
  next
    case False
    then have "0 < n div 10" by simp
    with 1(1) False have "hd (digits (n div 10)) \<noteq> CHR ''0''" by simp
    with False show ?thesis by (subst digits.simps) (simp add: digits_nonempty)
  qed
qed

lemma py_str_no_leading_zero: "0 < i \<Longrightarrow> hd (py_str i) \<noteq> CHR ''0''"
  by (simp add: py_str_def digits_no_leading_zero)

lemma digit_chars_value:
  assumes "k < 10"
  shows "of_char (digit_chars ! k) - 48 = k"
proof -
  from assms have "k \<in> {0, 1, 2, 3, 4, 5, 6, 7, 8, 9}" by auto
  then show ?thesis by (auto simp: digit_chars_def)
qed

lemma decimal_value_digits: "decimal_value (digits n) = n"
proof (induction n rule: digits.induct)
  case (1 n)
  show ?case
  proof (cases "n < 10")
    case True
    then show ?thesis
      by (subst digits.simps) (simp add: decimal_value_def digit_chars_value)
  next
    case False
    with 1 have "decimal_value (digits (n div 10)) = n div 10" by simp
    with False show ?thesis
      by (subst digits.simps) (simp add: decimal_value_def digit_chars_value)
  qed
qed

lemma decimal_value_py_str: "0 \<le> i \<Longrightarrow> int (decimal_value (py_str i)) = i"
  by (simp add: py_str_def decimal_value_digits)

section \<open>The Spanish date header\<close>

lemmas calendar_defs = toordinal_def ymd_to_ord_def days_before_year_def
  days_before_month_def days_in_month_def is_leap_def DAYS_BEFORE_MONTH_def
  DAYS_IN_MONTH_def weekday_def valid_date_def MINYEAR_def MAXYEAR_def

lemmas header_defs = format_date_spanish_def py_index_def SPANISH_WEEKDAYS_def
  SPANISH_MONTHS_def py_str_def digits.simps digit_chars_def

lemma weekday_range: "0 \<le> weekday d \<and> weekday d \<le> 6"
  by (simp add: weekday_def)

lemma table_lengths: "length SPANISH_WEEKDAYS = 7" "length SPANISH_MONTHS = 12"
  by (simp_all add: SPANISH_WEEKDAYS_def SPANISH_MONTHS_def)

lemma format_date_spanish_valid:
  assumes "valid_date d"
  shows "format_date_spanish d =
         Inr (SPANISH_WEEKDAYS ! nat (weekday d) @ '' '' @ py_str (day d) @ '' '' @
              SPANISH_MONTHS ! nat (month d - 1) @ '' '' @ py_str (year d))"
proof -
  have "py_index SPANISH_WEEKDAYS (weekday d) = Inr (SPANISH_WEEKDAYS ! nat (weekday d))"
    using weekday_range[of d] by (intro py_index_in_range) (simp_all add: table_lengths)
  moreover have "py_index SPANISH_MONTHS (month d - 1) = Inr (SPANISH_MONTHS ! nat (month d - 1))"
    using assms by (intro py_index_in_range) (simp_all add: table_lengths valid_date_def)
  ultimately show ?thesis by (simp add: format_date_spanish_def)
qed

text \<open>
  C2. For every date \<open>d\<close>, \<open>format_date_spanish d\<close> is the string
  "<Weekday> <Day> <Month> <Year>": the weekday name is the entry of the 7-entry table
  at \<open>d\<close>'s weekday (Monday = 0 .. Sunday = 6), the month name the entry of the
  12-entry table at \<open>d\<close>'s month minus one, and the day and the year are written in
  decimal, with no leading zero. 2025-08-28 gives "Jueves 28 Agosto 2025" and 2025-01-01 gives
  "Miercoles 1 Enero 2025" with an acute accent on the first e, which is the code
  point 0xE9.
\<close>

theorem format_date_spanish_shape:
  assumes "valid_date d"
  shows "format_date_spanish d =
           Inr (SPANISH_WEEKDAYS ! nat (weekday d) @ '' '' @ py_str (day d) @ '' '' @
                SPANISH_MONTHS ! nat (month d - 1) @ '' '' @ py_str (year d)) \<and>
         length SPANISH_WEEKDAYS = 7 \<and> nat (weekday d) < 7 \<and>
         length SPANISH_MONTHS = 12 \<and> nat (month d - 1) < 12 \<and>
         hd (py_str (day d)) \<noteq> CHR ''0'' \<and>
         int (decimal_value (py_str (day d))) = day d \<and>
         int (decimal_value (py_str (year d))) = year d \<and>
         weekday \<lparr>year = 2025, month = 9, day = 1\<rparr> = 0 \<and>
         weekday \<lparr>year = 2025, month = 9, day = 7\<rparr> = 6 \<and>
         format_date_spanish \<lparr>year = 2025, month = 8, day = 28\<rparr> =
           Inr ''Jueves 28 Agosto 2025'' \<and>
         format_date_spanish \<lparr>year = 2025, month = 1, day = 1\<rparr> =
           Inr (''Mi'' @ [CHR 0xE9] @ ''rcoles 1 Enero 2025'')"
proof -
  have "nat (weekday d) < 7" using weekday_range[of d] by linarith
  moreover have "nat (month d - 1) < 12" "0 < day d"
    using assms by (auto simp: valid_date_def)
  moreover have "int (decimal_value (py_str (day d))) = day d"
    "int (decimal_value (py_str (year d))) = year d"
    using assms by (simp_all add: decimal_value_py_str valid_date_def MINYEAR_def)
  moreover have "weekday \<lparr>year = 2025, month = 9, day = 1\<rparr> = 0"
    "weekday \<lparr>year = 2025, month = 9, day = 7\<rparr> = 6"
    by (simp_all add: calendar_defs)
  moreover have "format_date_spanish \<lparr>year = 2025, month = 8, day = 28\<rparr> =
      Inr ''Jueves 28 Agosto 2025''"
    by (simp add: header_defs calendar_defs)
  moreover have "format_date_spanish \<lparr>year = 2025, month = 1, day = 1\<rparr> =
      Inr (''Mi'' @ [CHR 0xE9] @ ''rcoles 1 Enero 2025'')"
    by (simp add: header_defs calendar_defs)
  ultimately show ?thesis
    using format_date_spanish_valid[OF assms]
    by (simp add: table_lengths py_str_no_leading_zero)
qed

theorem format_date_spanish_shape_witness:
  "valid_date \<lparr>year = 2024, month = 2, day = 29\<rparr> \<and>
   format_date_spanish \<lparr>year = 2024, month = 2, day = 29\<rparr> = Inr ''Jueves 29 Febrero 2024''"
proof -
  have v: "valid_date \<lparr>year = 2024, month = 2, day = 29\<rparr>"
    by (simp add: calendar_defs)
  show ?thesis
    using v format_date_spanish_shape[OF v]
    by (simp add: calendar_defs SPANISH_WEEKDAYS_def SPANISH_MONTHS_def py_str_def
        digits.simps digit_chars_def)
qed

text \<open>
  C10. \<open>format_date_spanish\<close> never fails on a valid calendar date: the weekday index
  is in 0..6, inside the 7-entry weekday table, and the month minus one is in 0..11,
  inside the 12-entry month table, so neither subscript raises IndexError and a string
  is returned.
\<close>

theorem format_date_spanish_total:
  assumes "valid_date d"
  shows "0 \<le> weekday d \<and> weekday d \<le> 6 \<and> weekday d < int (length SPANISH_WEEKDAYS) \<and>
         0 \<le> month d - 1 \<and> month d - 1 \<le> 11 \<and> month d - 1 < int (length SPANISH_MONTHS) \<and>
         py_index SPANISH_WEEKDAYS (weekday d) \<noteq> Inl IndexError \<and>
         py_index SPANISH_MONTHS (month d - 1) \<noteq> Inl IndexError \<and>
         (\<exists>s. format_date_spanish d = Inr s)"
proof -
  have w: "0 \<le> weekday d" "weekday d \<le> 6" using weekday_range[of d] by simp_all
  have m: "0 \<le> month d - 1" "month d - 1 \<le> 11"
    using assms by (simp_all add: valid_date_def)
  have "py_index SPANISH_WEEKDAYS (weekday d) \<noteq> Inl IndexError"
    using w by (simp add: py_index_in_range table_lengths)
  moreover have "py_index SPANISH_MONTHS (month d - 1) \<noteq> Inl IndexError"
    using m by (simp add: py_index_in_range table_lengths)
  moreover have "\<exists>s. format_date_spanish d = Inr s"
    using format_date_spanish_valid[OF assms] by blast
  ultimately show ?thesis using w m by (simp add: table_lengths)
qed

theorem format_date_spanish_total_witness:
  "valid_date \<lparr>year = 9999, month = 12, day = 31\<rparr> \<and>
   weekday \<lparr>year = 9999, month = 12, day = 31\<rparr> = 4 \<and>
   (\<exists>s. format_date_spanish \<lparr>year = 9999, month = 12, day = 31\<rparr> = Inr s)"
proof -
  have v: "valid_date \<lparr>year = 9999, month = 12, day = 31\<rparr>"
    by (simp add: calendar_defs)
  have "weekday \<lparr>year = 9999, month = 12, day = 31\<rparr> = 4"
    by (simp add: calendar_defs)
  then show ?thesis
    using v format_date_spanish_total[OF v] by simp
qed

section \<open>Centred text\<close>

text \<open>
  C8. For every header string, font size and font name that the PDF library knows,
  \<open>draw_centered_text_top\<close> takes the rendered width of the text and draws it with its
  left edge at \<open>(page_w - text_w) / 2\<close> and its base line at \<open>page_h - top_offset\<close>; the
  text is then centred: its left edge plus half its width is \<open>page_w / 2\<close>, which is also
  the middle between its left and its right edge. For a font name that is not known the
  call raises KeyError and draws nothing.
\<close>

theorem draw_centered_text_top_centred:
  "(font_known registry font_name \<longrightarrow>
      (\<exists>x y. draw_centered_text_top e registry cnv header page_w page_h font_name font_size
                 top_offset =
               Inr (cnv\<lparr>code := code cnv @
                      [SetFont font_name font_size, DrawString x y header]\<rparr>) \<and>
             x = (page_w - string_width e header font_name font_size) / 2 \<and>
             y = page_h - real_of_int top_offset \<and>
             x + string_width e header font_name font_size / 2 = page_w / 2 \<and>
             (x + (x + string_width e header font_name font_size)) / 2 = page_w / 2)) \<and>
   (\<not> font_known registry font_name \<longrightarrow>
      draw_centered_text_top e registry cnv header page_w page_h font_name font_size
        top_offset = Inl KeyError)"
proof (intro conjI impI)
  assume k: "font_known registry font_name"
  show "\<exists>x y. draw_centered_text_top e registry cnv header page_w page_h font_name font_size
                 top_offset =
               Inr (cnv\<lparr>code := code cnv @
                      [SetFont font_name font_size, DrawString x y header]\<rparr>) \<and>
             x = (page_w - string_width e header font_name font_size) / 2 \<and>
             y = page_h - real_of_int top_offset \<and>
             x + string_width e header font_name font_size / 2 = page_w / 2 \<and>
             (x + (x + string_width e header font_name font_size)) / 2 = page_w / 2"
  proof (intro exI conjI)
    show "draw_centered_text_top e registry cnv header page_w page_h font_name font_size
            top_offset =
          Inr (cnv\<lparr>code := code cnv @ [SetFont font_name font_size,
            DrawString ((page_w - string_width e header font_name font_size) / 2)
              (page_h - real_of_int top_offset) header]\<rparr>)"
      using k by (simp add: draw_centered_text_top_def emit_def Let_def)
  qed (simp_all add: field_simps)
next
  assume "\<not> font_known registry font_name"
  then show "draw_centered_text_top e registry cnv header page_w page_h font_name font_size
        top_offset = Inl KeyError"
    by (simp add: draw_centered_text_top_def)
qed

theorem draw_centered_text_top_centred_witness:
  "font_known [] ''Helvetica'' \<and>
   draw_centered_text_top bare_env [] (Canvas ''Agenda_2025.pdf'' A4)
     ''Jueves 28 Agosto 2025'' (fst A4) (snd A4) ''Helvetica'' 40 70 =
     Inr ((Canvas ''Agenda_2025.pdf'' A4)\<lparr>code :=
            [SetFont ''Helvetica'' 40,
             DrawString ((fst A4 - 420) / 2) (snd A4 - 70) ''Jueves 28 Agosto 2025'']\<rparr>) \<and>
   (fst A4 - 420) / 2 + 420 / 2 = fst A4 / 2 \<and>
   \<not> font_known [] ''NoSuchFont'' \<and>
   draw_centered_text_top bare_env [] (Canvas ''Agenda_2025.pdf'' A4)
     ''Jueves 28 Agosto 2025'' (fst A4) (snd A4) ''NoSuchFont'' 40 70 = Inl KeyError"
proof -
  have k: "font_known [] ''Helvetica''" and n: "\<not> font_known [] ''NoSuchFont''"
    by (simp_all add: font_known_def standard_fonts_def)
  have w: "string_width bare_env ''Jueves 28 Agosto 2025'' ''Helvetica'' 40 = 420"
    by (simp add: bare_env_def)
  note t = draw_centered_text_top_centred[where e = bare_env and registry = "[]"
      and cnv = "Canvas ''Agenda_2025.pdf'' A4" and header = "''Jueves 28 Agosto 2025''"
      and page_w = "fst A4" and page_h = "snd A4" and font_size = 40 and top_offset = 70]
  from t[where font_name = "''Helvetica''"] k obtain x y
    where d: "draw_centered_text_top bare_env [] (Canvas ''Agenda_2025.pdf'' A4)
                ''Jueves 28 Agosto 2025'' (fst A4) (snd A4) ''Helvetica'' 40 70 =
              Inr ((Canvas ''Agenda_2025.pdf'' A4)\<lparr>code := code (Canvas ''Agenda_2025.pdf'' A4) @
                     [SetFont ''Helvetica'' 40, DrawString x y ''Jueves 28 Agosto 2025'']\<rparr>)"
      and x: "x = (fst A4 - string_width bare_env ''Jueves 28 Agosto 2025'' ''Helvetica'' 40) / 2"
      and y: "y = snd A4 - real_of_int 70"
    by blast
  have a: "draw_centered_text_top bare_env [] (Canvas ''Agenda_2025.pdf'' A4)
     ''Jueves 28 Agosto 2025'' (fst A4) (snd A4) ''Helvetica'' 40 70 =
     Inr ((Canvas ''Agenda_2025.pdf'' A4)\<lparr>code :=
            [SetFont ''Helvetica'' 40,
             DrawString ((fst A4 - 420) / 2) (snd A4 - 70) ''Jueves 28 Agosto 2025'']\<rparr>)"
    unfolding d x y w by (simp add: Canvas_def)
  have b: "(fst A4 - 420) / 2 + 420 / 2 = fst A4 / 2" by (simp add: field_simps)
  have c: "draw_centered_text_top bare_env [] (Canvas ''Agenda_2025.pdf'' A4)
     ''Jueves 28 Agosto 2025'' (fst A4) (snd A4) ''NoSuchFont'' 40 70 = Inl KeyError"
    using t[where font_name = "''NoSuchFont''"] n by blast
  from k a b n c show ?thesis by (intro conjI)
qed

section \<open>The calendar\<close>

lemma div_pred: 
  fixes y k :: int
  assumes "0 < k"
  shows "(y - 1) div k = (if y mod k = 0 then y div k - 1 else y div k)"
proof (cases "y mod k = 0")
  case True
  have "y - 1 = k * (y div k - 1) + (k - 1)"
    using True by (simp add: algebra_simps) (metis True add.right_neutral mult.commute mult_div_mod_eq)
  then have "(y - 1) div k = y div k - 1"
    using assms by (intro int_div_pos_eq[where r = "k - 1"]) auto
  with True show ?thesis by simp
next
  case False
  have "0 \<le> y mod k" "y mod k < k" using assms by auto
  with False have r: "0 \<le> y mod k - 1" "y mod k - 1 < k" by auto
  have "y - 1 = k * (y div k) + (y mod k - 1)" by (simp add: algebra_simps)
  then have "(y - 1) div k = y div k"
    using r by (intro int_div_pos_eq[where r = "y mod k - 1"]) auto
  with False show ?thesis by simp
qed

lemma mod_100_4: "y mod 100 = 0 \<Longrightarrow> y mod 4 = 0" for y :: int
  using mod_mod_cancel[of 4 100 y] by simp

lemma mod_400_100: "y mod 400 = 0 \<Longrightarrow> y mod 100 = 0" for y :: int
  using mod_mod_cancel[of 100 400 y] by simp

lemma days_before_year_next:
  "days_before_year (y + 1) = days_before_year y + 365 + (if is_leap y then 1 else 0)"
  unfolding days_before_year_def is_leap_def
  using mod_100_4[of y] mod_400_100[of y]
  by (simp add: div_pred[of 4 y] div_pred[of 100 y] div_pred[of 400 y])

lemma month_cases: "1 \<le> m \<Longrightarrow> m \<le> 12 \<Longrightarrow> m \<in> {1,2,3,4,5,6,7,8,9,10,11,12}" for m :: int
  by simp presburger

lemma days_before_month_next:
  assumes "1 \<le> m" "m < 12"
  shows "days_before_month y (m + 1) = days_before_month y m + days_in_month y m"
proof -
  from assms have "m \<in> {1,2,3,4,5,6,7,8,9,10,11}" by simp presburger
  then show ?thesis
    by (auto simp: days_before_month_def days_in_month_def DAYS_BEFORE_MONTH_def DAYS_IN_MONTH_def)
qed

lemma days_in_month_bounds:
  assumes "1 \<le> m" "m \<le> 12"
  shows "28 \<le> days_in_month y m \<and> days_in_month y m \<le> 31"
proof -
  from assms have "m \<in> {1,2,3,4,5,6,7,8,9,10,11,12}" by (rule month_cases)
  then show ?thesis
    by (auto simp: days_in_month_def DAYS_IN_MONTH_def)
qed

lemma december: "days_in_month y 12 = 31" "days_before_month y 12 + 31 = 365 + (if is_leap y then 1 else 0)"
  "days_before_month y 1 = 0"
  by (simp_all add: days_in_month_def DAYS_IN_MONTH_def days_before_month_def DAYS_BEFORE_MONTH_def)

lemma add_one_day_ok:
  assumes v: "valid_date d" and s: "date_add_one_day d = Inr d'"
  shows "valid_date d' \<and> toordinal d' = toordinal d + 1"
proof -
  from v have m: "1 \<le> month d" "month d \<le> 12" and dd: "1 \<le> day d" "day d \<le> days_in_month (year d) (month d)"
    and y: "1 \<le> year d" "year d \<le> 9999"
    by (simp_all add: valid_date_def MINYEAR_def MAXYEAR_def)
  consider (same) "day d + 1 \<le> days_in_month (year d) (month d)"
    | (nextm) "day d = days_in_month (year d) (month d)" "month d < 12"
    | (nexty) "day d = days_in_month (year d) (month d)" "month d = 12"
    using dd m by linarith
  then show ?thesis
  proof cases
    case same
    with s have "d' = \<lparr>year = year d, month = month d, day = day d + 1\<rparr>"
      by (simp add: date_add_one_day_def Let_def)
    with same m y dd show ?thesis
      by (simp add: valid_date_def MINYEAR_def MAXYEAR_def toordinal_def ymd_to_ord_def)
  next
    case nextm
    with s have d': "d' = \<lparr>year = year d, month = month d + 1, day = 1\<rparr>"
      by (simp add: date_add_one_day_def Let_def)
    have "28 \<le> days_in_month (year d) (month d + 1)"
      using days_in_month_bounds[of "month d + 1" "year d"] m nextm by simp
    with d' nextm m y show ?thesis
      by (simp add: valid_date_def MINYEAR_def MAXYEAR_def toordinal_def ymd_to_ord_def
          days_before_month_next)
  next
    case nexty
    with s have d': "d' = \<lparr>year = year d + 1, month = 1, day = 1\<rparr>" and y': "year d + 1 \<le> 9999"
      by (simp_all add: date_add_one_day_def Let_def MINYEAR_def MAXYEAR_def december split: if_splits)
    have "days_in_month (year d + 1) 1 = 31" by (simp add: days_in_month_def DAYS_IN_MONTH_def)
    with d' nexty y y' show ?thesis
      using december(2)[of "year d"]
      by (simp add: valid_date_def MINYEAR_def MAXYEAR_def toordinal_def ymd_to_ord_def
          days_before_year_next december(1,3))
  qed
qed


lemma days_before_month_mono:
  assumes "1 \<le> m" "m \<le> m'" "m' \<le> 12"
  shows "days_before_month y m \<le> days_before_month y m'"
  using assms(2,1,3)
proof (induction m' rule: int_ge_induct)
  case base
  show ?case by simp
next
  case (step i)
  then have "days_before_month y (i + 1) = days_before_month y i + days_in_month y i"
    by (intro days_before_month_next) auto
  moreover have "28 \<le> days_in_month y i"
    using days_in_month_bounds[of i y] step by simp
  ultimately show ?case using step by simp
qed

lemma days_before_year_mono:
  assumes "y \<le> y'"
  shows "days_before_year y \<le> days_before_year y'"
  using assms
proof (induction y' rule: int_ge_induct)
  case base
  show ?case by simp
next
  case (step i)
  then show ?case by (simp add: days_before_year_next)
qed

lemma end_of_month_le:
  assumes "1 \<le> m" "m \<le> 12"
  shows "days_before_month y m + days_in_month y m \<le> 365 + (if is_leap y then 1 else 0)"
proof (cases "m = 12")
  case True
  then show ?thesis using december(2)[of y] by (simp add: december(1))
next
  case False
  with assms have "days_before_month y (m + 1) \<le> days_before_month y 12"
    by (intro days_before_month_mono) auto
  with False assms show ?thesis
    using december(2)[of y] by (simp add: days_before_month_next)
qed

lemma toordinal_strict_mono:
  assumes a: "valid_date a" and b: "valid_date b" and lt: "date_lt a b"
  shows "toordinal a < toordinal b"
proof -
  from a have ma: "1 \<le> month a" "month a \<le> 12" and da: "1 \<le> day a" "day a \<le> days_in_month (year a) (month a)"
    by (simp_all add: valid_date_def)
  from b have mb: "1 \<le> month b" "month b \<le> 12" and db: "1 \<le> day b" "day b \<le> days_in_month (year b) (month b)"
    by (simp_all add: valid_date_def)
  consider (y) "year a < year b"
    | (m) "year a = year b" "month a < month b"
    | (d) "year a = year b" "month a = month b" "day a < day b"
    using lt by (auto simp: date_lt_def)
  then show ?thesis
  proof cases
    case y
    have "days_before_month (year a) (month a) + day a \<le> 365 + (if is_leap (year a) then 1 else 0)"
      using end_of_month_le[OF ma, of "year a"] da by simp
    then have "toordinal a \<le> days_before_year (year a + 1)"
      by (simp add: toordinal_def ymd_to_ord_def days_before_year_next)
    also have "\<dots> \<le> days_before_year (year b)"
      using y by (intro days_before_year_mono) simp
    also have "\<dots> < toordinal b"
      using db days_before_month_mono[of 1 "month b" "year b"] mb
      by (simp add: toordinal_def ymd_to_ord_def december(3))
    finally show ?thesis .
  next
    case m
    have "days_before_month (year a) (month a + 1) \<le> days_before_month (year a) (month b)"
      using m ma mb by (intro days_before_month_mono) auto
    moreover have "days_before_month (year a) (month a + 1) =
        days_before_month (year a) (month a) + days_in_month (year a) (month a)"
      using m ma mb by (intro days_before_month_next) auto
    ultimately show ?thesis
      using m da db by (simp add: toordinal_def ymd_to_ord_def)
  next
    case d
    then show ?thesis by (simp add: toordinal_def ymd_to_ord_def)
  qed
qed

lemma date_le_iff_toordinal:
  assumes a: "valid_date a" and b: "valid_date b"
  shows "date_le a b = (toordinal a \<le> toordinal b)"
proof (cases "date_le a b")
  case True
  then have "date_lt a b \<or> (year a = year b \<and> month a = month b \<and> day a = day b)"
    by (auto simp: date_le_def date_lt_def)
  then have "toordinal a \<le> toordinal b"
    using toordinal_strict_mono[OF a b] by (auto simp: toordinal_def)
  with True show ?thesis by simp
next
  case False
  then have "date_lt b a" by (auto simp: date_le_def date_lt_def)
  then have "toordinal b < toordinal a" by (rule toordinal_strict_mono[OF b a])
  with False show ?thesis by simp
qed

section \<open>The grid loops\<close>

lemma le_floor_div:
  fixes s k :: int and w :: real
  assumes "0 < s"
  shows "(real_of_int (k * s) \<le> w) = (k \<le> \<lfloor>w / real_of_int s\<rfloor>)"
proof -
  have "(real_of_int (k * s) \<le> w) = (real_of_int k \<le> w / real_of_int s)"
    using assms by (simp add: pos_le_divide_eq)
  also have "\<dots> = (k \<le> \<lfloor>w / real_of_int s\<rfloor>)"
    by (simp add: le_floor_iff)
  finally show ?thesis .
qed

lemma emit_simps: "code (emit cnv x) = code cnv @ [x]" "pages (emit cnv x) = pages cnv"
  "filename (emit cnv x) = filename cnv" "pagesize (emit cnv x) = pagesize cnv"
  by (simp_all add: emit_def)

lemma draw_grid_vertical_from:
  assumes s: "0 < spacing"
  shows "draw_grid_vertical cnv page_w page_h spacing (j * spacing) =
         Some (cnv\<lparr>code := code cnv @ map (vline page_h spacing) [j..\<lfloor>page_w / real_of_int spacing\<rfloor>]\<rparr>)"
proof (induction "nat (\<lfloor>page_w / real_of_int spacing\<rfloor> - j + 1)" arbitrary: j cnv)
  case 0
  then have "\<not> j \<le> \<lfloor>page_w / real_of_int spacing\<rfloor>" by simp
  then have "\<not> real_of_int (j * spacing) \<le> page_w" "[j..\<lfloor>page_w / real_of_int spacing\<rfloor>] = []"
    using le_floor_div[OF s, of j page_w] by simp_all
  then show ?case
    by (subst draw_grid_vertical.simps) simp
next
  case (Suc n)
  then have le: "j \<le> \<lfloor>page_w / real_of_int spacing\<rfloor>" by simp
  then have c: "real_of_int (j * spacing) \<le> page_w"
    using le_floor_div[OF s, of j page_w] by simp
  have n: "n = nat (\<lfloor>page_w / real_of_int spacing\<rfloor> - (j + 1) + 1)" using Suc(2) by simp
  have step: "j * spacing + spacing = (j + 1) * spacing" by (simp add: algebra_simps)
  have l: "[j..\<lfloor>page_w / real_of_int spacing\<rfloor>] = j # [j + 1..\<lfloor>page_w / real_of_int spacing\<rfloor>]"
    using le by (simp add: upto_rec1)
  show ?case
    apply (subst draw_grid_vertical.simps)
    apply (simp only: c if_True step Suc(1)[OF n] l)
    apply (simp add: emit_def vline_def)
    done
qed

lemma draw_grid_vertical_Some_progress:
  assumes "draw_grid_vertical cnv page_w page_h spacing x = Some r"
  shows "spacing \<le> 0 \<longrightarrow> \<not> real_of_int x \<le> page_w"
proof (rule draw_grid_vertical.raw_induct
    [where xa = "((((cnv, page_w), page_h), spacing), x)" and y = r
       and P = "\<lambda>c w h s x r. s \<le> 0 \<longrightarrow> \<not> real_of_int x \<le> w", simplified])
  show "draw_grid_vertical cnv page_w page_h spacing x = Some r" by (rule assms)
next
  fix f :: "canvas \<Rightarrow> real \<Rightarrow> real \<Rightarrow> int \<Rightarrow> int \<Rightarrow> canvas option"
    and c w h s x r
  assume ih: "\<And>c w h s x r. f c w h s x = Some r \<Longrightarrow> s \<le> 0 \<longrightarrow> \<not> real_of_int x \<le> w"
    and body: "(if real_of_int x \<le> w
                then f (emit c (Line (real_of_int x) 0 (real_of_int x) h)) w h s (x + s)
                else Some c) = Some r"
  show "s \<le> 0 \<longrightarrow> \<not> real_of_int x \<le> w"
  proof (intro impI notI)
    assume s: "s \<le> 0" and x: "real_of_int x \<le> w"
    from body x have "f (emit c (Line (real_of_int x) 0 (real_of_int x) h)) w h s (x + s) = Some r"
      by simp
    from ih[OF this] s have "\<not> real_of_int (x + s) \<le> w" by simp
    with s x show False by simp
  qed
qed

lemma draw_grid_vertical_diverges:
  assumes "spacing \<le> 0" "real_of_int x \<le> page_w"
  shows "draw_grid_vertical cnv page_w page_h spacing x = None"
  using draw_grid_vertical_Some_progress[of cnv page_w page_h spacing x] assms
  by (cases "draw_grid_vertical cnv page_w page_h spacing x") auto

lemma draw_grid_horizontal_from:
  assumes s: "0 < spacing"
  shows "draw_grid_horizontal cnv page_w stop_y spacing (j * spacing) =
         Some (cnv\<lparr>code := code cnv @ map (hline page_w spacing) [j..\<lfloor>stop_y / real_of_int spacing\<rfloor>]\<rparr>)"
proof (induction "nat (\<lfloor>stop_y / real_of_int spacing\<rfloor> - j + 1)" arbitrary: j cnv)
  case 0
  then have "\<not> j \<le> \<lfloor>stop_y / real_of_int spacing\<rfloor>" by simp
  then have "\<not> real_of_int (j * spacing) \<le> stop_y" "[j..\<lfloor>stop_y / real_of_int spacing\<rfloor>] = []"
    using le_floor_div[OF s, of j stop_y] by simp_all
  then show ?case
    by (subst draw_grid_horizontal.simps) simp
next
  case (Suc n)
  then have le: "j \<le> \<lfloor>stop_y / real_of_int spacing\<rfloor>" by simp
  then have c: "real_of_int (j * spacing) \<le> stop_y"
    using le_floor_div[OF s, of j stop_y] by simp
  have n: "n = nat (\<lfloor>stop_y / real_of_int spacing\<rfloor> - (j + 1) + 1)" using Suc(2) by simp
  have step: "j * spacing + spacing = (j + 1) * spacing" by (simp add: algebra_simps)
  have l: "[j..\<lfloor>stop_y / real_of_int spacing\<rfloor>] = j # [j + 1..\<lfloor>stop_y / real_of_int spacing\<rfloor>]"
    using le by (simp add: upto_rec1)
  show ?case
    apply (subst draw_grid_horizontal.simps)
    apply (simp only: c if_True step Suc(1)[OF n] l)
    apply (simp add: emit_def hline_def)
    done
qed

lemma draw_grid_horizontal_Some_progress:
  assumes "draw_grid_horizontal cnv page_w stop_y spacing x = Some r"
  shows "spacing \<le> 0 \<longrightarrow> \<not> real_of_int x \<le> stop_y"
proof (rule draw_grid_horizontal.raw_induct
    [where P = "\<lambda>c w h s x r. s \<le> 0 \<longrightarrow> \<not> real_of_int x \<le> h" and ya = r, rotated])
  show "draw_grid_horizontal cnv page_w stop_y spacing x = Some r" by (rule assms)
next
  fix f :: "canvas \<Rightarrow> real \<Rightarrow> real \<Rightarrow> int \<Rightarrow> int \<Rightarrow> canvas option"
    and c w h s x r
  assume ih: "\<And>c w h s x r. f c w h s x = Some r \<Longrightarrow> s \<le> 0 \<longrightarrow> \<not> real_of_int x \<le> h"
    and body: "(if real_of_int x \<le> h
                then f (emit c (Line 0 (real_of_int x) w (real_of_int x))) w h s (x + s)
                else Some c) = Some r"
  show "s \<le> 0 \<longrightarrow> \<not> real_of_int x \<le> h"
  proof (intro impI notI)
    assume s: "s \<le> 0" and x: "real_of_int x \<le> h"
    from body x have "f (emit c (Line 0 (real_of_int x) w (real_of_int x))) w h s (x + s) = Some r"
      by simp
    from ih[OF this] s have "\<not> real_of_int (x + s) \<le> h" by simp
    with s x show False by simp
  qed
qed

lemma draw_grid_horizontal_diverges:
  assumes "spacing \<le> 0" "real_of_int x \<le> stop_y"
  shows "draw_grid_horizontal cnv page_w stop_y spacing x = None"
  using draw_grid_horizontal_Some_progress[of cnv page_w stop_y spacing x] assms
  by (cases "draw_grid_horizontal cnv page_w stop_y spacing x") auto

lemma draw_grid_positive:
  assumes "0 < spacing"
  shows "draw_grid cnv page_w page_h spacing top_margin =
         Some (cnv\<lparr>code := code cnv @ grid_ops page_w page_h spacing top_margin\<rparr>)"
proof -
  let ?c2 = "emit (emit cnv (SetLineWidth 0.2)) (SetStrokeColorRGB 0.85 0.85 0.85)"
  have v: "draw_grid_vertical ?c2 page_w page_h spacing 0 =
      Some (?c2\<lparr>code := code ?c2 @ map (vline page_h spacing) (line_indices spacing page_w)\<rparr>)"
    using draw_grid_vertical_from[OF assms, of ?c2 page_w page_h 0]
    by (simp add: line_indices_def)
  let ?c3 = "?c2\<lparr>code := code ?c2 @ map (vline page_h spacing) (line_indices spacing page_w)\<rparr>"
  have h: "draw_grid_horizontal ?c3 page_w (page_h - real_of_int top_margin) spacing 0 =
      Some (?c3\<lparr>code := code ?c3 @ map (hline page_w spacing)
        (line_indices spacing (page_h - real_of_int top_margin))\<rparr>)"
    using draw_grid_horizontal_from[OF assms, of ?c3 page_w "page_h - real_of_int top_margin" 0]
    by (simp add: line_indices_def)
  show ?thesis
    unfolding draw_grid_def Let_def v option.case h
    by (simp add: emit_def grid_ops_def)
qed

lemma draw_grid_nonpositive:
  assumes "spacing \<le> 0" "0 \<le> page_w"
  shows "draw_grid cnv page_w page_h spacing top_margin = None"
proof -
  have "draw_grid_vertical (emit (emit cnv (SetLineWidth 0.2)) (SetStrokeColorRGB 0.85 0.85 0.85))
          page_w page_h spacing 0 = None"
    using assms by (intro draw_grid_vertical_diverges) simp_all
  then show ?thesis by (simp add: draw_grid_def Let_def)
qed

section \<open>One step of the page loop\<close>

lemma A4_positive: "0 \<le> fst A4" "0 \<le> snd A4"
  by (simp_all add: A4_def)

lemma end_of_year_valid:
  assumes "valid_date d"
  shows "end_of_year d = Inr \<lparr>year = year d, month = 12, day = 31\<rparr>"
    and "valid_date \<lparr>year = year d, month = 12, day = 31\<rparr>"
    and "date_le d \<lparr>year = year d, month = 12, day = 31\<rparr>"
proof -
  show v: "valid_date \<lparr>year = year d, month = 12, day = 31\<rparr>"
    using assms by (simp add: valid_date_def december(1))
  then show "end_of_year d = Inr \<lparr>year = year d, month = 12, day = 31\<rparr>"
    by (simp add: end_of_year_def date_new_def)
  have "day d \<le> 31" using assms days_in_month_bounds[of "month d" "year d"]
    by (simp add: valid_date_def)
  then show "date_le d \<lparr>year = year d, month = 12, day = 31\<rparr>"
    using assms by (auto simp: date_le_def valid_date_def)
qed

lemma add_one_day_no_overflow:
  assumes "valid_date d" "year d < 9999"
  shows "\<exists>d'. date_add_one_day d = Inr d'"
  using assms by (simp add: date_add_one_day_def Let_def valid_date_def MINYEAR_def MAXYEAR_def)

lemma register_candidates_known:
  "font_known (snd (register_candidates e cs)) (fst (register_candidates e cs))"
proof (induction cs)
  case Nil
  show ?case by (simp add: font_known_def standard_fonts_def FALLBACK_FONT_def)
next
  case (Cons c cs)
  obtain name path where c: "c = (name, path)" by (cases c)
  show ?case
    unfolding c using Cons.IH
    by (cases "register_font e name path") (simp_all add: font_known_def)
qed

lemma register_readable_font_known:
  "font_known (snd (register_readable_font e)) (fst (register_readable_font e))"
  unfolding register_readable_font_def by (rule register_candidates_known)

lemma page_step:
  assumes f: "font_known registry font_name"
    and s: "0 < spacing" and v: "valid_date current" and c: "code cnv = []"
  shows "\<exists>header c2 c3. format_date_spanish current = Inr header \<and>
    draw_centered_text_top e registry
      (cnv\<lparr>code := code cnv @ grid_ops (fst A4) (snd A4) spacing top_margin\<rparr>)
      header (fst A4) (snd A4) font_name header_font_size (top_margin - 30) = Inr c2 \<and>
    (if include_page_numbers
     then draw_page_number e registry c2 (fst A4) font_name page_num 10 20
     else Inr c2) = Inr c3 \<and>
    showPage c3 =
    cnv\<lparr>pages := pages cnv @
      [page_ops e font_name spacing header_font_size include_page_numbers top_margin current page_num]\<rparr>"
proof -
  obtain header where h: "format_date_spanish current = Inr header"
    using format_date_spanish_valid[OF v] by blast
  let ?c1 = "cnv\<lparr>code := code cnv @ grid_ops (fst A4) (snd A4) spacing top_margin\<rparr>"
  let ?c2 = "?c1\<lparr>code := code ?c1 @ header_ops e font_name header_font_size top_margin header\<rparr>"
  let ?c3 = "if include_page_numbers
             then ?c2\<lparr>code := code ?c2 @ number_ops e font_name page_num\<rparr> else ?c2"
  have a: "draw_centered_text_top e registry ?c1 header (fst A4) (snd A4) font_name
             header_font_size (top_margin - 30) = Inr ?c2"
    using f by (simp add: draw_centered_text_top_def emit_def Let_def header_ops_def)
  have b: "(if include_page_numbers
            then draw_page_number e registry ?c2 (fst A4) font_name page_num 10 20
            else Inr ?c2) = Inr ?c3"
    using f by (simp add: draw_page_number_def emit_def Let_def number_ops_def)
  have d: "showPage ?c3 =
    cnv\<lparr>pages := pages cnv @
      [page_ops e font_name spacing header_font_size include_page_numbers top_margin current page_num]\<rparr>"
    using c by (simp add: h showPage_def page_ops_def)
  from h a b d show ?thesis by blast
qed

lemma agenda_loop_unfold:
  assumes f: "font_known registry font_name"
    and s: "0 < spacing" and v: "valid_date current" and c: "code cnv = []"
    and le: "date_le current end'"
  shows "agenda_loop e registry font_name spacing header_font_size include_page_numbers
           top_margin end' cnv page_num current =
         (case date_add_one_day current of
            Inl ex \<Rightarrow> Some (Inl ex)
          | Inr next_day \<Rightarrow>
              agenda_loop e registry font_name spacing header_font_size include_page_numbers
                top_margin end' (cnv\<lparr>pages := pages cnv @
                  [page_ops e font_name spacing header_font_size include_page_numbers top_margin
                     current page_num]\<rparr>) (page_num + 1) next_day)"
proof -
  obtain header c2 c3 where h: "format_date_spanish current = Inr header"
    and a: "draw_centered_text_top e registry
      (cnv\<lparr>code := code cnv @ grid_ops (fst A4) (snd A4) spacing top_margin\<rparr>)
      header (fst A4) (snd A4) font_name header_font_size (top_margin - 30) = Inr c2"
    and b: "(if include_page_numbers
     then draw_page_number e registry c2 (fst A4) font_name page_num 10 20
     else Inr c2) = Inr c3"
    and p: "showPage c3 =
    cnv\<lparr>pages := pages cnv @
      [page_ops e font_name spacing header_font_size include_page_numbers top_margin current page_num]\<rparr>"
    using page_step[OF f s v c] by blast
  show ?thesis
    apply (subst agenda_loop.simps)
    apply (simp only: le if_True draw_grid_positive[OF s] option.case h sum.case a b p)
    done
qed

lemma agenda_loop_exit:
  assumes "\<not> date_le current end'"
  shows "agenda_loop e registry font_name spacing header_font_size include_page_numbers top_margin end'
           cnv page_num current = Some (Inr (cnv, page_num, current))"
  using assms by (subst agenda_loop.simps) simp

section \<open>The page loop\<close>

lemma agenda_loop_pages:
  assumes f: "font_known registry font_name" and s: "0 < spacing" and ve: "valid_date end'" and y: "year end' < 9999"
  shows "valid_date current \<Longrightarrow> code cnv = [] \<Longrightarrow>
         days_in_interval current end' = k \<Longrightarrow>
         agenda_loop e registry font_name spacing header_font_size include_page_numbers top_margin end'
           cnv page_num current =
         Some (Inr (cnv\<lparr>pages := pages cnv @
                      map (\<lambda>i. page_ops e font_name spacing header_font_size
                                 include_page_numbers top_margin (date_plus current i)
                                 (page_num + int i)) [0..<k]\<rparr>,
                    page_num + int k, date_plus current k))"
proof (induction k arbitrary: cnv page_num current)
  case 0
  then have "\<not> date_le current end'"
    by (simp add: date_le_iff_toordinal[OF 0(1) ve] days_in_interval_def)
  then show ?case by (simp add: agenda_loop_exit)
next
  case (Suc k)
  from Suc(4) have ord: "toordinal current \<le> toordinal end'"
    by (simp add: days_in_interval_def)
  then have le: "date_le current end'"
    by (simp add: date_le_iff_toordinal[OF Suc(2) ve])
  then have "year current \<le> year end'" by (auto simp: date_le_def)
  with y have "year current < 9999" by simp
  then obtain nxt where nxt: "date_add_one_day current = Inr nxt"
    using add_one_day_no_overflow[OF Suc(2)] by blast
  from add_one_day_ok[OF Suc(2) nxt]
  have vn: "valid_date nxt" and on: "toordinal nxt = toordinal current + 1" by simp_all
  from Suc(4) on have k: "days_in_interval nxt end' = k"
    by (simp add: days_in_interval_def)
  let ?p = "page_ops e font_name spacing header_font_size include_page_numbers top_margin"
  let ?cnv = "cnv\<lparr>pages := pages cnv @ [?p current page_num]\<rparr>"
  have c: "code ?cnv = []" using Suc(3) by simp
  have "agenda_loop e registry font_name spacing header_font_size include_page_numbers top_margin end'
           cnv page_num current =
        agenda_loop e registry font_name spacing header_font_size include_page_numbers top_margin end'
           ?cnv (page_num + 1) nxt"
    by (simp add: agenda_loop_unfold[OF f s Suc(2) Suc(3) le] nxt)
  also have "\<dots> = Some (Inr (?cnv\<lparr>pages := pages ?cnv @
                      map (\<lambda>i. ?p (date_plus nxt i) (page_num + 1 + int i)) [0..<k]\<rparr>,
                    page_num + 1 + int k, date_plus nxt k))"
    by (rule Suc.IH[OF vn c k])
  also have "\<dots> = Some (Inr (cnv\<lparr>pages := pages cnv @
                      map (\<lambda>i. ?p (date_plus current i) (page_num + int i)) [0..<Suc k]\<rparr>,
                    page_num + int (Suc k), date_plus current (Suc k)))"
    by (simp add: map_upt_Suc nxt add.assoc del: upt_Suc)
  finally show ?case .
qed

lemma agenda_loop_terminates:
  assumes f: "font_known registry font_name" and s: "0 < spacing" and ve: "valid_date end'"
  shows "valid_date current \<Longrightarrow> code cnv = [] \<Longrightarrow>
         days_in_interval current end' = k \<Longrightarrow>
         \<exists>r. agenda_loop e registry font_name spacing header_font_size include_page_numbers top_margin end'
           cnv page_num current = Some r"
proof (induction k arbitrary: cnv page_num current)
  case 0
  then have "\<not> date_le current end'"
    by (simp add: date_le_iff_toordinal[OF 0(1) ve] days_in_interval_def)
  then show ?case by (simp add: agenda_loop_exit)
next
  case (Suc k)
  from Suc(4) have ord: "toordinal current \<le> toordinal end'"
    by (simp add: days_in_interval_def)
  then have le: "date_le current end'"
    by (simp add: date_le_iff_toordinal[OF Suc(2) ve])
  show ?case
  proof (cases "date_add_one_day current")
    case (Inl ex)
    then show ?thesis by (simp add: agenda_loop_unfold[OF f s Suc(2) Suc(3) le])
  next
    case (Inr nxt)
    from add_one_day_ok[OF Suc(2) Inr]
    have vn: "valid_date nxt" and on: "toordinal nxt = toordinal current + 1" by simp_all
    from Suc(4) on have k: "days_in_interval nxt end' = k"
      by (simp add: days_in_interval_def)
    show ?thesis
      using Suc.IH[OF vn _ k] Suc(3)
      by (simp add: agenda_loop_unfold[OF f s Suc(2) Suc(3) le] Inr)
  qed
qed

lemma agenda_loop_diverges:
  assumes "spacing \<le> 0" "date_le current end'"
  shows "agenda_loop e registry font_name spacing header_font_size include_page_numbers top_margin end'
           cnv page_num current = None"
  using assms by (subst agenda_loop.simps) (simp add: draw_grid_nonpositive A4_positive)

section \<open>The whole run\<close>

lemma save_empty_page:
  assumes "code cnv = []"
  shows "save e cnv =
         (if can_write e (filename cnv)
          then Inr \<lparr>doc_path = filename cnv, doc_pagesize = pagesize cnv, doc_pages = pages cnv\<rparr>
          else Inl OSError)"
  using assms by (simp add: save_def)

lemma build_agenda_pdf_unfold:
  assumes st: "resolve_start e start_date = Inr D" and v: "valid_date D"
  shows "build_agenda_pdf e output_path start_date spacing header_font_size
           include_page_numbers top_margin =
         (case agenda_loop e (snd (register_readable_font e)) (fst (register_readable_font e)) spacing header_font_size
                 include_page_numbers top_margin \<lparr>year = year D, month = 12, day = 31\<rparr>
                 (Canvas output_path A4) 1 D of
            None \<Rightarrow> None
          | Some (Inl ex) \<Rightarrow> Some (Inl ex)
          | Some (Inr (cnv', page_num, current)) \<Rightarrow>
              (case save e cnv' of
                 Inl ex \<Rightarrow> Some (Inl ex)
               | Inr doc \<Rightarrow> Some (Inr (doc, ''[DONE] Agenda saved to '' @ output_path))))"
  using st by (simp add: build_agenda_pdf_def resolve_start_def end_of_year_valid(1)[OF v] Let_def)

lemma build_agenda_pdf_result:
  assumes st: "resolve_start e start_date = Inr D" and v: "valid_date D"
    and y: "year D < 9999" and s: "0 < spacing" and w: "can_write e output_path"
  shows "build_agenda_pdf e output_path start_date spacing header_font_size
           include_page_numbers top_margin =
         Some (Inr (\<lparr>doc_path = output_path, doc_pagesize = A4,
                      doc_pages =
                        map (\<lambda>i. page_ops e (fst (register_readable_font e)) spacing
                                   header_font_size include_page_numbers top_margin
                                   (date_plus D i) (1 + int i))
                          [0..<days_in_interval D \<lparr>year = year D, month = 12, day = 31\<rparr>]\<rparr>,
                    ''[DONE] Agenda saved to '' @ output_path))"
proof -
  let ?end = "\<lparr>year = year D, month = 12, day = 31\<rparr>"
  have ve: "valid_date ?end" by (rule end_of_year_valid(2)[OF v])
  have ye: "year ?end < 9999" using y by simp
  have c: "code (Canvas output_path A4) = []" by (simp add: Canvas_def)
  show ?thesis
    unfolding build_agenda_pdf_unfold[OF st v]
      agenda_loop_pages[OF register_readable_font_known s ve ye v c refl]
    using w by (simp add: save_def Canvas_def)
qed

lemma build_agenda_pdf_terminates:
  assumes s: "0 < spacing" and v: "\<And>D. resolve_start e start_date = Inr D \<Longrightarrow> valid_date D"
  shows "\<exists>r. build_agenda_pdf e output_path start_date spacing header_font_size
           include_page_numbers top_margin = Some r"
proof (cases "resolve_start e start_date")
  case (Inl ex)
  then show ?thesis by (simp add: build_agenda_pdf_def resolve_start_def)
next
  case (Inr D)
  then have vD: "valid_date D" by (rule v)
  have c: "code (Canvas output_path A4) = []" by (simp add: Canvas_def)
  obtain r where "agenda_loop e (snd (register_readable_font e)) (fst (register_readable_font e)) spacing header_font_size
                 include_page_numbers top_margin \<lparr>year = year D, month = 12, day = 31\<rparr>
                 (Canvas output_path A4) 1 D = Some r"
    using agenda_loop_terminates[OF register_readable_font_known s end_of_year_valid(2)[OF vD] vD c refl]
    by blast
  then show ?thesis
    unfolding build_agenda_pdf_unfold[OF Inr vD]
    by (auto split: sum.splits prod.splits)
qed

lemma build_agenda_pdf_diverges:
  assumes s: "spacing \<le> 0" and st: "resolve_start e start_date = Inr D" and v: "valid_date D"
  shows "build_agenda_pdf e output_path start_date spacing header_font_size
           include_page_numbers top_margin = None"
  unfolding build_agenda_pdf_unfold[OF st v]
  by (simp add: agenda_loop_diverges[OF s end_of_year_valid(3)[OF v]])

lemma agenda_loop_last_year:
  assumes f: "font_known registry font_name" and s: "0 < spacing"
  shows "valid_date current \<Longrightarrow> code cnv = [] \<Longrightarrow>
         days_in_interval current \<lparr>year = 9999, month = 12, day = 31\<rparr> = k \<Longrightarrow>
         year current = 9999 \<Longrightarrow>
         agenda_loop e registry font_name spacing header_font_size include_page_numbers top_margin
           \<lparr>year = 9999, month = 12, day = 31\<rparr> cnv page_num current = Some (Inl OverflowError)"
proof (induction k arbitrary: cnv page_num current)
  case 0
  have "date_le current \<lparr>year = 9999, month = 12, day = 31\<rparr>"
    using end_of_year_valid(3)[OF 0(1)] 0(4) by simp
  moreover have "valid_date \<lparr>year = 9999, month = 12, day = 31\<rparr>"
    using end_of_year_valid(2)[OF 0(1)] 0(4) by simp
  ultimately show ?case using 0(3)
    by (simp add: date_le_iff_toordinal[OF 0(1)] days_in_interval_def)
next
  case (Suc k)
  have le: "date_le current \<lparr>year = 9999, month = 12, day = 31\<rparr>"
    using end_of_year_valid(3)[OF Suc(2)] Suc(5) by simp
  show ?case
  proof (cases "date_add_one_day current")
    case (Inl ex)
    then have "ex = OverflowError"
      by (simp add: date_add_one_day_def Let_def split: if_splits)
    with Inl show ?thesis by (simp add: agenda_loop_unfold[OF f s Suc(2) Suc(3) le])
  next
    case (Inr nxt)
    from add_one_day_ok[OF Suc(2) Inr]
    have vn: "valid_date nxt" and on: "toordinal nxt = toordinal current + 1" by simp_all
    from Suc(4) on have k: "days_in_interval nxt \<lparr>year = 9999, month = 12, day = 31\<rparr> = k"
      by (simp add: days_in_interval_def)
    have "year current \<le> year nxt"
      using Inr by (auto simp: date_add_one_day_def Let_def split: if_splits)
    with vn Suc(5) have yn: "year nxt = 9999" by (simp add: valid_date_def MAXYEAR_def)
    show ?thesis
      using Suc.IH[OF vn _ k yn] Suc(3)
      by (simp add: agenda_loop_unfold[OF f s Suc(2) Suc(3) le] Inr)
  qed
qed

lemma build_agenda_pdf_last_year:
  assumes st: "resolve_start e start_date = Inr D" and v: "valid_date D"
    and y: "year D = 9999" and s: "0 < spacing"
  shows "build_agenda_pdf e output_path start_date spacing header_font_size
           include_page_numbers top_margin = Some (Inl OverflowError)"
proof -
  have c: "code (Canvas output_path A4) = []" by (simp add: Canvas_def)
  show ?thesis
    unfolding build_agenda_pdf_unfold[OF st v]
    using agenda_loop_last_year[OF register_readable_font_known s v c refl y, of e] y by simp
qed

section \<open>The lines of the grid\<close>

lemma set_line_indices:
  assumes "0 < spacing"
  shows "set (line_indices spacing limit) = {k. 0 \<le> k \<and> real_of_int (k * spacing) \<le> limit}"
proof -
  have "set (line_indices spacing limit) = {k. 0 \<le> k \<and> k \<le> \<lfloor>limit / real_of_int spacing\<rfloor>}"
    unfolding line_indices_def by auto
  then show ?thesis
    unfolding le_floor_div[OF assms] .
qed

lemma distinct_line_indices: "distinct (line_indices spacing limit)"
  by (simp add: line_indices_def)

text \<open>
  C7. With a positive spacing, \<open>draw_grid\<close> sets the line width and colour and then
  draws the vertical lines, one at each \<open>x = k * spacing\<close> with \<open>k \<ge> 0\<close> and
  \<open>k * spacing \<le> page_w\<close> (the boundary included), each from the bottom to the top of the
  page, and the horizontal lines, one at each \<open>y = k * spacing\<close> with \<open>k \<ge> 0\<close> and
  \<open>k * spacing \<le> page_h - top_margin\<close>, each across the page; it draws nothing else.
\<close>

theorem draw_grid_lines:
  assumes "0 < spacing"
  shows "draw_grid cnv page_w page_h spacing top_margin =
           Some (cnv\<lparr>code := code cnv @
                   [SetLineWidth 0.2, SetStrokeColorRGB 0.85 0.85 0.85] @
                   map (\<lambda>k. Line (real_of_int (k * spacing)) 0 (real_of_int (k * spacing)) page_h)
                     (line_indices spacing page_w) @
                   map (\<lambda>k. Line 0 (real_of_int (k * spacing)) page_w (real_of_int (k * spacing)))
                     (line_indices spacing (page_h - real_of_int top_margin))\<rparr>) \<and>
         set (line_indices spacing page_w) =
           {k. 0 \<le> k \<and> real_of_int (k * spacing) \<le> page_w} \<and>
         set (line_indices spacing (page_h - real_of_int top_margin)) =
           {k. 0 \<le> k \<and> real_of_int (k * spacing) \<le> page_h - real_of_int top_margin} \<and>
         distinct (line_indices spacing page_w) \<and>
         distinct (line_indices spacing (page_h - real_of_int top_margin))"
proof -
  have "vline page_h spacing =
      (\<lambda>k. Line (real_of_int (k * spacing)) 0 (real_of_int (k * spacing)) page_h)"
    "hline page_w spacing =
      (\<lambda>k. Line 0 (real_of_int (k * spacing)) page_w (real_of_int (k * spacing)))"
    by (simp_all add: fun_eq_iff vline_def hline_def)
  then have "draw_grid cnv page_w page_h spacing top_margin =
           Some (cnv\<lparr>code := code cnv @
                   [SetLineWidth 0.2, SetStrokeColorRGB 0.85 0.85 0.85] @
                   map (\<lambda>k. Line (real_of_int (k * spacing)) 0 (real_of_int (k * spacing)) page_h)
                     (line_indices spacing page_w) @
                   map (\<lambda>k. Line 0 (real_of_int (k * spacing)) page_w (real_of_int (k * spacing)))
                     (line_indices spacing (page_h - real_of_int top_margin))\<rparr>)"
    using draw_grid_positive[OF assms, of cnv page_w page_h top_margin]
    by (simp add: grid_ops_def)
  moreover note set_line_indices[OF assms, of page_w]
    set_line_indices[OF assms, of "page_h - real_of_int top_margin"]
    distinct_line_indices[of spacing page_w]
    distinct_line_indices[of spacing "page_h - real_of_int top_margin"]
  ultimately show ?thesis by (intro conjI)
qed

lemma A4_line_indices:
  "line_indices 20 (fst A4) = [0..29]"
  "line_indices 20 (snd A4 - real_of_int 100) = [0..37]"
proof -
  have "\<lfloor>fst A4 / real_of_int 20\<rfloor> = 29"
    by (rule floor_unique) (simp_all add: A4_def)
  then show "line_indices 20 (fst A4) = [0..29]"
    unfolding line_indices_def by (rule arg_cong)
  have "\<lfloor>(snd A4 - real_of_int 100) / real_of_int 20\<rfloor> = 37"
    by (rule floor_unique) (simp_all add: A4_def)
  then show "line_indices 20 (snd A4 - real_of_int 100) = [0..37]"
    unfolding line_indices_def by (rule arg_cong)
qed


theorem draw_grid_lines_witness:
  "(0::int) < 20 \<and>
   draw_grid (Canvas ''Agenda_2025.pdf'' A4) (fst A4) (snd A4) 20 100 =
     Some ((Canvas ''Agenda_2025.pdf'' A4)\<lparr>code := code (Canvas ''Agenda_2025.pdf'' A4) @
        [SetLineWidth 0.2, SetStrokeColorRGB 0.85 0.85 0.85] @
        map (\<lambda>k. Line (real_of_int (k * 20)) 0 (real_of_int (k * 20)) (snd A4)) [0..29] @
        map (\<lambda>k. Line 0 (real_of_int (k * 20)) (fst A4) (real_of_int (k * 20))) [0..37]\<rparr>) \<and>
   set [0..29] = {k. 0 \<le> k \<and> real_of_int (k * 20) \<le> fst A4}"
proof -
  have s: "(0::int) < 20" by simp
  note t = draw_grid_lines[OF s, of "Canvas ''Agenda_2025.pdf'' A4" "fst A4" "snd A4" 100,
      unfolded A4_line_indices]
  show ?thesis
    using s t by blast
qed

section \<open>Termination of the grid loops\<close>

text \<open>
  C9. On a page of non-negative width, \<open>draw_grid\<close> returns exactly when the spacing is
  positive: with a positive spacing both loops end, and with a spacing that is zero or
  negative a loop whose condition holds once holds for ever. So for every start date the
  whole pipeline returns exactly when the spacing is positive.
\<close>

theorem draw_grid_returns_iff_spacing_positive:
  assumes "0 \<le> page_w"
  shows "((draw_grid cnv page_w page_h spacing top_margin \<noteq> None) = (0 < spacing)) \<and>
         (0 < spacing \<longrightarrow>
            draw_grid_vertical cnv page_w page_h spacing 0 \<noteq> None \<and>
            draw_grid_horizontal cnv page_w stop_y spacing 0 \<noteq> None) \<and>
         (spacing \<le> 0 \<and> real_of_int x \<le> page_w \<longrightarrow>
            draw_grid_vertical cnv page_w page_h spacing x = None) \<and>
         (spacing \<le> 0 \<and> real_of_int y \<le> stop_y \<longrightarrow>
            draw_grid_horizontal cnv page_w stop_y spacing y = None) \<and>
         (resolve_start e start_date = Inr D \<and> valid_date D \<longrightarrow>
            (build_agenda_pdf e output_path start_date spacing header_font_size
               include_page_numbers top_margin \<noteq> None) = (0 < spacing))"
proof (intro conjI impI)
  show "(draw_grid cnv page_w page_h spacing top_margin \<noteq> None) = (0 < spacing)"
  proof (cases "0 < spacing")
    case True
    then show ?thesis by (simp add: draw_grid_positive)
  next
    case False
    then show ?thesis using assms by (simp add: draw_grid_nonpositive)
  qed
next
  assume s: "0 < spacing"
  show "draw_grid_vertical cnv page_w page_h spacing 0 \<noteq> None"
    using draw_grid_vertical_from[OF s, of cnv page_w page_h 0] by simp
  show "draw_grid_horizontal cnv page_w stop_y spacing 0 \<noteq> None"
    using draw_grid_horizontal_from[OF s, of cnv page_w stop_y 0] by simp
next
  assume "spacing \<le> 0 \<and> real_of_int x \<le> page_w"
  then show "draw_grid_vertical cnv page_w page_h spacing x = None"
    by (simp add: draw_grid_vertical_diverges)
next
  assume "spacing \<le> 0 \<and> real_of_int y \<le> stop_y"
  then show "draw_grid_horizontal cnv page_w stop_y spacing y = None"
    by (simp add: draw_grid_horizontal_diverges)
next
  assume a: "resolve_start e start_date = Inr D \<and> valid_date D"
  show "(build_agenda_pdf e output_path start_date spacing header_font_size
               include_page_numbers top_margin \<noteq> None) = (0 < spacing)"
  proof (cases "0 < spacing")
    case True
    have "\<exists>r. build_agenda_pdf e output_path start_date spacing header_font_size
               include_page_numbers top_margin = Some r"
      using a by (intro build_agenda_pdf_terminates[OF True]) simp
    with True show ?thesis by auto
  next
    case False
    then have "spacing \<le> 0" by simp
    from build_agenda_pdf_diverges[OF this conjunct1[OF a] conjunct2[OF a]] False
    show ?thesis by simp
  qed
qed

lemma valid_2025_08_28: "valid_date \<lparr>year = 2025, month = 8, day = 28\<rparr>"
  by (simp add: calendar_defs)

theorem draw_grid_returns_iff_spacing_positive_witness:
  "0 \<le> fst A4 \<and>
   draw_grid (Canvas ''Agenda_2025.pdf'' A4) (fst A4) (snd A4) 0 100 = None \<and>
   draw_grid (Canvas ''Agenda_2025.pdf'' A4) (fst A4) (snd A4) 20 100 \<noteq> None \<and>
   draw_grid_vertical (Canvas ''Agenda_2025.pdf'' A4) (fst A4) (snd A4) (- 20) 0 = None \<and>
   valid_date \<lparr>year = 2025, month = 8, day = 28\<rparr> \<and>
   build_agenda_pdf bare_env ''Agenda_2025.pdf'' (Some \<lparr>year = 2025, month = 8, day = 28\<rparr>)
     0 40 True 100 = None \<and>
   build_agenda_pdf bare_env ''Agenda_2025.pdf'' (Some \<lparr>year = 2025, month = 8, day = 28\<rparr>)
     20 40 True 100 \<noteq> None"
proof -
  have w: "0 \<le> fst A4" by (rule A4_positive)
  have r: "resolve_start bare_env (Some \<lparr>year = 2025, month = 8, day = 28\<rparr>) =
      Inr \<lparr>year = 2025, month = 8, day = 28\<rparr>"
    by (simp add: resolve_start_def)
  note t = draw_grid_returns_iff_spacing_positive[OF w,
      where cnv = "Canvas ''Agenda_2025.pdf'' A4" and page_h = "snd A4" and top_margin = 100
        and x = 0 and e = bare_env
        and start_date = "Some \<lparr>year = 2025, month = 8, day = 28\<rparr>"
        and D = "\<lparr>year = 2025, month = 8, day = 28\<rparr>"
        and output_path = "''Agenda_2025.pdf''" and header_font_size = 40
        and include_page_numbers = True]
  show ?thesis
    using w r valid_2025_08_28 t[where spacing = 0] t[where spacing = 20]
      t[where spacing = "- 20"] by simp
qed

section \<open>The header band\<close>

lemma vline_enters_header_band:
  assumes "0 < top_margin"
  shows "enters_header_band page_h top_margin (vline page_h spacing k)"
  using assms by (simp add: enters_header_band_def vline_def)

lemma hline_outside_header_band:
  assumes "0 < spacing" "k \<in> set (line_indices spacing (page_h - real_of_int top_margin))"
  shows "\<not> enters_header_band page_h top_margin (hline page_w spacing k)"
  using assms(2) unfolding set_line_indices[OF assms(1)]
  by (simp add: enters_header_band_def hline_def)

lemma grid_ops_in_header_band:
  assumes s: "0 < spacing" and t: "0 < top_margin"
  shows "filter (enters_header_band page_h top_margin) (grid_ops page_w page_h spacing top_margin) =
         map (vline page_h spacing) (line_indices spacing page_w)"
proof -
  have v: "filter (enters_header_band page_h top_margin)
             (map (vline page_h spacing) (line_indices spacing page_w)) =
           map (vline page_h spacing) (line_indices spacing page_w)"
    by (rule filter_True) (auto simp: vline_enters_header_band[OF t])
  have h: "filter (enters_header_band page_h top_margin)
             (map (hline page_w spacing)
                (line_indices spacing (page_h - real_of_int top_margin))) = []"
    by (rule filter_False) (auto simp: hline_outside_header_band[OF s])
  show ?thesis
    unfolding grid_ops_def filter_append v h
    by (simp add: enters_header_band_def)
qed

text \<open>
  C5. The specification says that no grid line enters the header band, the region within
  \<open>top_margin\<close> of the top of the page. On the A4 page with the default spacing 20 and
  top margin 100, \<open>draw_grid\<close> draws the grid below, and the lines of it that enter the
  band are the thirty vertical lines: each runs from the bottom of the page to its top.
\<close>

theorem draw_grid_vertical_lines_cross_header_band:
  "draw_grid cnv (fst A4) (snd A4) 20 100 =
     Some (cnv\<lparr>code := code cnv @ grid_ops (fst A4) (snd A4) 20 100\<rparr>) \<and>
   filter (enters_header_band (snd A4) 100) (grid_ops (fst A4) (snd A4) 20 100) =
     map (vline (snd A4) 20) [0..29] \<and>
   vline (snd A4) 20 0 = Line 0 0 0 (snd A4) \<and>
   vline (snd A4) 20 29 = Line 580 0 580 (snd A4)"
proof -
  have s: "(0::int) < 20" and t: "(0::int) < 100" by simp_all
  have "filter (enters_header_band (snd A4) 100) (grid_ops (fst A4) (snd A4) 20 100) =
     map (vline (snd A4) 20) [0..29]"
    using grid_ops_in_header_band[OF s t, of "snd A4" "fst A4"]
    unfolding A4_line_indices(1) .
  moreover have "vline (snd A4) 20 0 = Line 0 0 0 (snd A4)"
    "vline (snd A4) 20 29 = Line 580 0 580 (snd A4)"
    by (simp_all add: vline_def)
  ultimately show ?thesis
    using draw_grid_positive[OF s, of cnv "fst A4" "snd A4" 100] by (intro conjI)
qed

section \<open>Today's date\<close>

text \<open>
  C6, as the specification states it, fails on a machine where \<open>zoneinfo\<close> is imported but has no
  data for Europe/Paris: the time zone database is not available, yet the date does not
  fall back to the local clock; \<open>ZoneInfo("Europe/Paris")\<close> raises and the error reaches
  the caller of the pipeline.
\<close>

theorem today_without_tzdata_counterexample:
  "zoneinfo_imported bare_env \<and>
   zone_today bare_env ''Europe/Paris'' = None \<and>
   today_europe_paris bare_env = Inl ZoneInfoNotFoundError \<and>
   today_europe_paris bare_env \<noteq> Inr (local_today bare_env) \<and>
   build_agenda_pdf bare_env ''Agenda_2025.pdf'' None 20 40 True 100 =
     Some (Inl ZoneInfoNotFoundError)"
  by (simp add: today_europe_paris_def bare_env_def build_agenda_pdf_def)

text \<open>
  C6, amended. When the default start date is used, today is evaluated in the
  Europe/Paris time zone if \<open>zoneinfo\<close> was imported and knows the zone; if the import of
  \<open>zoneinfo\<close> failed, the date of the local system clock is taken instead, and no error
  is raised.
\<close>

theorem today_europe_paris_fallback:
  "(zoneinfo_imported e \<and> zone_today e ''Europe/Paris'' = Some d \<longrightarrow>
      today_europe_paris e = Inr d \<and> resolve_start e None = Inr d) \<and>
   (\<not> zoneinfo_imported e \<longrightarrow>
      today_europe_paris e = Inr (local_today e) \<and>
      resolve_start e None = Inr (local_today e))"
  by (simp add: today_europe_paris_def resolve_start_def)

theorem today_europe_paris_fallback_witness:
  "zoneinfo_imported (bare_env\<lparr>zone_today := (\<lambda>key. Some \<lparr>year = 2025, month = 8, day = 29\<rparr>)\<rparr>) \<and>
   today_europe_paris (bare_env\<lparr>zone_today := (\<lambda>key. Some \<lparr>year = 2025, month = 8, day = 29\<rparr>)\<rparr>) =
     Inr \<lparr>year = 2025, month = 8, day = 29\<rparr> \<and>
   \<not> zoneinfo_imported (bare_env\<lparr>zoneinfo_imported := False\<rparr>) \<and>
   today_europe_paris (bare_env\<lparr>zoneinfo_imported := False\<rparr>) =
     Inr \<lparr>year = 2025, month = 8, day = 28\<rparr>"
  using today_europe_paris_fallback
    [of "bare_env\<lparr>zone_today := (\<lambda>key. Some \<lparr>year = 2025, month = 8, day = 29\<rparr>)\<rparr>"
        "\<lparr>year = 2025, month = 8, day = 29\<rparr>"]
    today_europe_paris_fallback[of "bare_env\<lparr>zoneinfo_imported := False\<rparr>"]
  by (simp add: bare_env_def)

section \<open>Fonts\<close>

lemma register_candidates_find:
  "register_candidates e cs =
     (case find (\<lambda>(name, path). path_exists e path \<and> register_font e name path = None) cs of
        None \<Rightarrow> (FALLBACK_FONT, [])
      | Some (name, path) \<Rightarrow> (name, [(name, path)]))"
proof (induction cs)
  case Nil
  show ?case by simp
next
  case (Cons c cs)
  obtain name path where c: "c = (name, path)" by (cases c)
  show ?case
    unfolding c using Cons.IH
    by (cases "register_font e name path") simp_all
qed

lemma register_candidates_none_exist:
  assumes "\<forall>(name, path) \<in> set cs. \<not> path_exists e path"
  shows "register_candidates e cs = (FALLBACK_FONT, [])"
  using assms by (induction cs) auto

text \<open>
  C4. \<open>register_readable_font\<close> returns the name of the first candidate of the list,
  in its order, whose file exists and whose registration does not raise, and has then
  registered that font. When no candidate is like that, because a file is missing or
  because its registration raises, whatever the exception, the result is "Helvetica" and
  nothing is registered; no exception leaves the function. In particular, when none of
  the candidate files exists the font is "Helvetica", and a run whose start date is
  before the year 9999, whose spacing is positive and whose output path can be written
  still returns its document, drawn in that font.
\<close>

theorem register_readable_font_first_success:
  "register_readable_font e =
     (case find (\<lambda>(name, path). path_exists e path \<and> register_font e name path = None)
             FONT_CANDIDATES of
        None \<Rightarrow> (''Helvetica'', [])
      | Some (name, path) \<Rightarrow> (name, [(name, path)])) \<and>
   ((\<forall>(name, path) \<in> set FONT_CANDIDATES.
        path_exists e path \<longrightarrow> register_font e name path \<noteq> None) \<longrightarrow>
      register_readable_font e = (''Helvetica'', [])) \<and>
   ((\<forall>(name, path) \<in> set FONT_CANDIDATES. \<not> path_exists e path) \<longrightarrow>
      fst (register_readable_font e) = ''Helvetica'' \<and>
      (resolve_start e start_date = Inr D \<and> valid_date D \<and> year D < 9999 \<and> 0 < spacing \<and>
       can_write e output_path \<longrightarrow>
         completed (build_agenda_pdf e output_path start_date spacing header_font_size
                      include_page_numbers top_margin) \<and>
         pages_of_run (build_agenda_pdf e output_path start_date spacing header_font_size
                      include_page_numbers top_margin) =
           map (\<lambda>i. page_ops e ''Helvetica'' spacing header_font_size include_page_numbers
                      top_margin (date_plus D i) (1 + int i))
             [0..<days_in_interval D \<lparr>year = year D, month = 12, day = 31\<rparr>]))"
proof (intro conjI impI)
  show "register_readable_font e =
     (case find (\<lambda>(name, path). path_exists e path \<and> register_font e name path = None)
             FONT_CANDIDATES of
        None \<Rightarrow> (''Helvetica'', [])
      | Some (name, path) \<Rightarrow> (name, [(name, path)]))"
    by (simp only: register_readable_font_def register_candidates_find FALLBACK_FONT_def)
next
  assume "\<forall>(name, path) \<in> set FONT_CANDIDATES.
        path_exists e path \<longrightarrow> register_font e name path \<noteq> None"
  then have "find (\<lambda>(name, path). path_exists e path \<and> register_font e name path = None)
             FONT_CANDIDATES = None"
    by (auto simp: find_None_iff)
  then show "register_readable_font e = (''Helvetica'', [])"
    by (simp add: register_readable_font_def register_candidates_find FALLBACK_FONT_def)
next
  assume n: "\<forall>(name, path) \<in> set FONT_CANDIDATES. \<not> path_exists e path"
  then show f: "fst (register_readable_font e) = ''Helvetica''"
    by (simp add: register_readable_font_def register_candidates_none_exist FALLBACK_FONT_def)
  assume a: "resolve_start e start_date = Inr D \<and> valid_date D \<and> year D < 9999 \<and> 0 < spacing \<and>
       can_write e output_path"
  then have r: "build_agenda_pdf e output_path start_date spacing header_font_size
           include_page_numbers top_margin =
         Some (Inr (\<lparr>doc_path = output_path, doc_pagesize = A4,
                      doc_pages =
                        map (\<lambda>i. page_ops e ''Helvetica'' spacing
                                   header_font_size include_page_numbers top_margin
                                   (date_plus D i) (1 + int i))
                          [0..<days_in_interval D \<lparr>year = year D, month = 12, day = 31\<rparr>]\<rparr>,
                    ''[DONE] Agenda saved to '' @ output_path))"
    using build_agenda_pdf_result[of e start_date D spacing output_path header_font_size
        include_page_numbers top_margin] unfolding f by blast
  show "completed (build_agenda_pdf e output_path start_date spacing header_font_size
                      include_page_numbers top_margin)"
    unfolding r by (simp add: completed_def)
  show "pages_of_run (build_agenda_pdf e output_path start_date spacing header_font_size
                      include_page_numbers top_margin) =
           map (\<lambda>i. page_ops e ''Helvetica'' spacing header_font_size include_page_numbers
                      top_margin (date_plus D i) (1 + int i))
             [0..<days_in_interval D \<lparr>year = year D, month = 12, day = 31\<rparr>]"
    unfolding r by (simp add: pages_of_run_def)
qed


theorem register_readable_font_first_success_witness:
  "register_readable_font bare_env = (''Helvetica'', []) \<and>
   valid_date \<lparr>year = 2025, month = 8, day = 28\<rparr> \<and>
   can_write bare_env ''Agenda_2025.pdf'' \<and>
   completed (build_agenda_pdf bare_env ''Agenda_2025.pdf''
                (Some \<lparr>year = 2025, month = 8, day = 28\<rparr>) 20 40 True 100) \<and>
   register_readable_font
     (bare_env\<lparr>path_exists := (\<lambda>path. True),
               register_font := (\<lambda>name path. if name = ''DejaVuSans'' then Some TTFError else None)\<rparr>) =
     (''FreeSans'', [(''FreeSans'', ''/usr/share/fonts/truetype/freefont/FreeSans.ttf'')])"
proof -
  have n: "\<forall>(name, path) \<in> set FONT_CANDIDATES. \<not> path_exists bare_env path"
    by (simp add: bare_env_def)
  have r: "resolve_start bare_env (Some \<lparr>year = 2025, month = 8, day = 28\<rparr>) =
      Inr \<lparr>year = 2025, month = 8, day = 28\<rparr>"
    by (simp add: resolve_start_def)
  have w: "can_write bare_env ''Agenda_2025.pdf''" by (simp add: bare_env_def)
  note t1 = register_readable_font_first_success[where e = bare_env
      and start_date = "Some \<lparr>year = 2025, month = 8, day = 28\<rparr>"
      and D = "\<lparr>year = 2025, month = 8, day = 28\<rparr>" and spacing = 20
      and output_path = "''Agenda_2025.pdf''" and header_font_size = 40
      and include_page_numbers = True and top_margin = 100]
  have a: "register_readable_font bare_env = (''Helvetica'', [])"
    using t1 n by blast
  have b: "completed (build_agenda_pdf bare_env ''Agenda_2025.pdf''
                (Some \<lparr>year = 2025, month = 8, day = 28\<rparr>) 20 40 True 100)"
    using t1 n r w valid_2025_08_28 by simp
  have c: "register_readable_font
     (bare_env\<lparr>path_exists := (\<lambda>path. True),
               register_font := (\<lambda>name path. if name = ''DejaVuSans'' then Some TTFError else None)\<rparr>) =
     (''FreeSans'', [(''FreeSans'', ''/usr/share/fonts/truetype/freefont/FreeSans.ttf'')])"
    using register_readable_font_first_success[where e = "bare_env\<lparr>path_exists := (\<lambda>path. True),
               register_font := (\<lambda>name path. if name = ''DejaVuSans'' then Some TTFError else None)\<rparr>"]
    by (simp add: FONT_CANDIDATES_def)
  from a b c w valid_2025_08_28 show ?thesis by (intro conjI)
qed

section \<open>Pages, dates and page numbers\<close>









section \<open>The number of pages\<close>

lemma days_to_december_31:
  "days_in_interval \<lparr>year = y, month = 12, day = 31\<rparr> \<lparr>year = y, month = 12, day = 31\<rparr> = 1"
  "days_in_interval \<lparr>year = y, month = 1, day = 1\<rparr> \<lparr>year = y, month = 12, day = 31\<rparr> =
     (if is_leap y then 366 else 365)"
  using december(2)[of y]
  by (simp_all add: days_in_interval_def toordinal_def ymd_to_ord_def december(3))

text \<open>
  For a start date before the year 9999, a positive spacing and an output path that can
  be written, the run returns a document with as many pages as there are days from the
  start date to December 31 of its year: one page when the start is December 31, 365
  pages from January 1 of a common year and 366 from January 1 of a leap year.
\<close>

lemma build_agenda_pdf_page_count:
  assumes "resolve_start e start_date = Inr D" and "valid_date D" and "year D < 9999"
    and "0 < spacing" and "can_write e output_path"
  shows "completed (build_agenda_pdf e output_path start_date spacing header_font_size
                      include_page_numbers top_margin) \<and>
         length (pages_of_run (build_agenda_pdf e output_path start_date spacing
                      header_font_size include_page_numbers top_margin)) =
           days_in_interval D \<lparr>year = year D, month = 12, day = 31\<rparr> \<and>
         (month D = 12 \<and> day D = 31 \<longrightarrow>
            length (pages_of_run (build_agenda_pdf e output_path start_date spacing
                      header_font_size include_page_numbers top_margin)) = 1) \<and>
         (month D = 1 \<and> day D = 1 \<longrightarrow>
            length (pages_of_run (build_agenda_pdf e output_path start_date spacing
                      header_font_size include_page_numbers top_margin)) =
              (if is_leap (year D) then 366 else 365))"
proof -
  have l: "length (pages_of_run (build_agenda_pdf e output_path start_date spacing
                      header_font_size include_page_numbers top_margin)) =
           days_in_interval D \<lparr>year = year D, month = 12, day = 31\<rparr>"
    and c: "completed (build_agenda_pdf e output_path start_date spacing header_font_size
                      include_page_numbers top_margin)"
    unfolding build_agenda_pdf_result[OF assms] by (simp_all add: pages_of_run_def completed_def)
  have "month D = 12 \<and> day D = 31 \<longrightarrow>
      days_in_interval D \<lparr>year = year D, month = 12, day = 31\<rparr> = 1"
    using days_to_december_31(1)[of "year D"] by (cases D) auto
  moreover have "month D = 1 \<and> day D = 1 \<longrightarrow>
      days_in_interval D \<lparr>year = year D, month = 12, day = 31\<rparr> =
        (if is_leap (year D) then 366 else 365)"
    using days_to_december_31(2)[of "year D"] by (cases D) auto
  ultimately show ?thesis using l c by simp
qed

text \<open>The loop draws nothing when the cursor is already past the end date.\<close>

lemma agenda_loop_empty_range:
  assumes "valid_date current" and "valid_date end'" and "date_lt end' current"
  shows "agenda_loop e registry font_name spacing header_font_size include_page_numbers top_margin end'
           cnv page_num current = Some (Inr (cnv, page_num, current))"
proof -
  have "\<not> date_le current end'"
    using assms(3) by (auto simp: date_le_def date_lt_def)
  then show ?thesis by (rule agenda_loop_exit)
qed

text \<open>
  C1. The specification says that every start date gives as many pages as there are days up to
  December 31 of its year, one page for a December 31. Started on 9999-12-31, the last
  date that \<open>datetime.date\<close> can hold, the run draws that page and then advances the
  date cursor, which raises OverflowError: the run ends with the exception and returns
  no document, where the interval has one day.
\<close>

theorem build_agenda_pdf_overflows_on_last_date:
  "build_agenda_pdf e output_path (Some \<lparr>year = 9999, month = 12, day = 31\<rparr>) 20 40 True 100 =
     Some (Inl OverflowError) \<and>
   pages_of_run (build_agenda_pdf e output_path (Some \<lparr>year = 9999, month = 12, day = 31\<rparr>)
     20 40 True 100) = [] \<and>
   date_add_one_day \<lparr>year = 9999, month = 12, day = 31\<rparr> = Inl OverflowError \<and>
   end_of_year \<lparr>year = 9999, month = 12, day = 31\<rparr> = Inr \<lparr>year = 9999, month = 12, day = 31\<rparr> \<and>
   days_in_interval \<lparr>year = 9999, month = 12, day = 31\<rparr>
     \<lparr>year = 9999, month = 12, day = 31\<rparr> = 1"
proof -
  have v: "valid_date \<lparr>year = 9999, month = 12, day = 31\<rparr>"
    by (simp add: calendar_defs)
  have r: "resolve_start e (Some \<lparr>year = 9999, month = 12, day = 31\<rparr>) =
      Inr \<lparr>year = 9999, month = 12, day = 31\<rparr>"
    by (simp add: resolve_start_def)
  have b: "build_agenda_pdf e output_path (Some \<lparr>year = 9999, month = 12, day = 31\<rparr>)
      20 40 True 100 = Some (Inl OverflowError)"
    by (rule build_agenda_pdf_last_year[OF r v]) simp_all
  have a: "date_add_one_day \<lparr>year = 9999, month = 12, day = 31\<rparr> = Inl OverflowError"
    by (simp add: date_add_one_day_def calendar_defs)
  have e: "end_of_year \<lparr>year = 9999, month = 12, day = 31\<rparr> =
      Inr \<lparr>year = 9999, month = 12, day = 31\<rparr>"
    using end_of_year_valid(1)[OF v] by simp
  show ?thesis
    unfolding b using a e days_to_december_31(1)[of 9999]
    by (simp add: pages_of_run_def)
qed

section \<open>The day after a date, by ordinals\<close>

text \<open>
  \<open>date_add_one_day\<close> agrees with the other way of adding a day, through the ordinals:
  the day after \<open>d\<close> is the one date whose ordinal is that of \<open>d\<close> plus one, and the
  addition overflows exactly on the date of the largest ordinal, 3652059.
\<close>

lemma toordinal_inj:
  assumes "valid_date a" "valid_date b" "toordinal a = toordinal b"
  shows "a = b"
proof -
  have "\<not> date_lt a b" "\<not> date_lt b a"
    using toordinal_strict_mono[OF assms(1,2)] toordinal_strict_mono[OF assms(2,1)] assms(3)
    by auto
  then have "year a = year b \<and> month a = month b \<and> day a = day b"
    by (auto simp: date_lt_def)
  then show ?thesis by simp
qed

lemma date_le_max:
  assumes "valid_date d"
  shows "date_le d \<lparr>year = 9999, month = 12, day = 31\<rparr>"
proof (cases "year d = 9999")
  case True
  then show ?thesis using end_of_year_valid(3)[OF assms] by simp
next
  case False
  then show ?thesis using assms by (simp add: date_le_def valid_date_def MAXYEAR_def)
qed

lemma toordinal_max: "toordinal \<lparr>year = 9999, month = 12, day = 31\<rparr> = 3652059"
  by (simp add: calendar_defs)

lemma valid_max: "valid_date \<lparr>year = 9999, month = 12, day = 31\<rparr>"
  by (simp add: calendar_defs)

lemma date_add_one_day_overflow_iff:
  assumes "valid_date d"
  shows "(date_add_one_day d = Inl OverflowError) = (toordinal d = 3652059)"
proof
  assume o: "date_add_one_day d = Inl OverflowError"
  from assms have b: "1 \<le> year d" "year d \<le> 9999" "1 \<le> month d" "month d \<le> 12"
    "day d \<le> days_in_month (year d) (month d)"
    by (simp_all add: valid_date_def MINYEAR_def MAXYEAR_def)
  from o have n: "\<not> day d + 1 \<le> days_in_month (year d) (month d)" "\<not> month d + 1 \<le> 12"
    "\<not> (1 \<le> year d + 1 \<and> year d + 1 \<le> 9999)"
    by (simp_all add: date_add_one_day_def Let_def MINYEAR_def MAXYEAR_def split: if_splits)
  from n(2) b have m: "month d = 12" by simp
  from n(1) b(5) have "day d = days_in_month (year d) (month d)" by simp
  with m have "day d = 31" by (simp add: december(1))
  moreover from n(3) b have "year d = 9999" by simp
  ultimately have "year d = 9999 \<and> month d = 12 \<and> day d = 31" using m by simp
  then have "d = \<lparr>year = 9999, month = 12, day = 31\<rparr>" by (cases d) simp
  then show "toordinal d = 3652059" by (simp add: toordinal_max)
next
  assume "toordinal d = 3652059"
  then have "d = \<lparr>year = 9999, month = 12, day = 31\<rparr>"
    using toordinal_inj[OF assms valid_max] by (simp add: toordinal_max)
  then show "date_add_one_day d = Inl OverflowError"
    by (simp add: date_add_one_day_def calendar_defs)
qed

lemma date_add_one_day_by_ordinal:
  assumes "valid_date d" "valid_date d'" "toordinal d' = toordinal d + 1"
  shows "date_add_one_day d = Inr d'"
proof (cases "date_add_one_day d")
  case (Inl ex)
  then have "ex = OverflowError"
    by (simp add: date_add_one_day_def Let_def split: if_splits)
  with Inl have "toordinal d = 3652059"
    using date_add_one_day_overflow_iff[OF assms(1)] by simp
  moreover have "toordinal d' \<le> 3652059"
    using date_le_max[OF assms(2)] date_le_iff_toordinal[OF assms(2) valid_max]
    by (simp add: toordinal_max)
  ultimately show ?thesis using assms(3) by simp
next
  case (Inr d'')
  from add_one_day_ok[OF assms(1) Inr] assms(3)
  have "valid_date d''" "toordinal d'' = toordinal d'" by simp_all
  then have "d'' = d'" using assms(2) by (intro toordinal_inj)
  with Inr show ?thesis by simp
qed

lemma weekday_next_day:
  assumes "valid_date d" "date_add_one_day d = Inr d'"
  shows "weekday d' = (weekday d + 1) mod 7"
  using add_one_day_ok[OF assms] by (simp add: weekday_def mod_simps)

section \<open>The days of an interval\<close>

lemma date_add_one_day_error:
  "date_add_one_day d = Inl ex \<Longrightarrow> ex = OverflowError"
  by (simp add: date_add_one_day_def Let_def split: if_splits)

lemma date_plus_toordinal:
  "valid_date d \<Longrightarrow> toordinal d + int n \<le> 3652059 \<Longrightarrow>
   valid_date (date_plus d n) \<and> toordinal (date_plus d n) = toordinal d + int n"
proof (induction n arbitrary: d)
  case 0
  then show ?case by simp
next
  case (Suc n)
  have "date_add_one_day d \<noteq> Inl OverflowError"
    using date_add_one_day_overflow_iff[OF Suc(2)] Suc(3) by simp
  then obtain d' where d': "date_add_one_day d = Inr d'"
    using date_add_one_day_error[of d] by (cases "date_add_one_day d") auto
  from add_one_day_ok[OF Suc(2) d']
  have v: "valid_date d'" and o: "toordinal d' = toordinal d + 1" by simp_all
  have "valid_date (date_plus d' n) \<and> toordinal (date_plus d' n) = toordinal d' + int n"
    using Suc(3) o by (intro Suc.IH[OF v]) simp
  then show ?case by (simp add: d' o)
qed

lemma toordinal_le_max:
  assumes "valid_date d"
  shows "toordinal d \<le> 3652059"
  using date_le_max[OF assms] date_le_iff_toordinal[OF assms valid_max]
  by (simp add: toordinal_max)

text \<open>
  \<open>days_in_interval a b\<close> counts the calendar dates from \<open>a\<close> to \<open>b\<close>: they are the
  dates \<open>a\<close>, the day after \<open>a\<close>, and so on, \<open>days_in_interval a b\<close> of them.
\<close>

lemma dates_of_interval:
  assumes a: "valid_date a" and b: "valid_date b"
  shows "{d. valid_date d \<and> date_le a d \<and> date_le d b} =
         date_plus a ` {i. i < days_in_interval a b}"
proof (intro set_eqI iffI)
  fix d
  assume "d \<in> {d. valid_date d \<and> date_le a d \<and> date_le d b}"
  then have v: "valid_date d" and l: "date_le a d" "date_le d b" by simp_all
  have o: "toordinal a \<le> toordinal d" "toordinal d \<le> toordinal b"
    using l date_le_iff_toordinal[OF a v] date_le_iff_toordinal[OF v b] by simp_all
  define i where "i = nat (toordinal d - toordinal a)"
  have i: "i < days_in_interval a b" "toordinal a + int i = toordinal d"
    using o by (simp_all add: i_def days_in_interval_def)
  have "toordinal a + int i \<le> 3652059"
    using toordinal_le_max[OF v] i(2) by simp
  from date_plus_toordinal[OF a this] i(2)
  have "valid_date (date_plus a i)" "toordinal (date_plus a i) = toordinal d" by simp_all
  then have "date_plus a i = d" using v by (intro toordinal_inj)
  with i(1) show "d \<in> date_plus a ` {i. i < days_in_interval a b}" by blast
next
  fix d
  assume "d \<in> date_plus a ` {i. i < days_in_interval a b}"
  then obtain i where i: "i < days_in_interval a b" and d: "d = date_plus a i" by blast
  from i have le: "toordinal a + int i \<le> toordinal b"
    by (simp add: days_in_interval_def)
  then have "toordinal a + int i \<le> 3652059"
    using toordinal_le_max[OF b] by simp
  from date_plus_toordinal[OF a this]
  have v: "valid_date d" and o: "toordinal d = toordinal a + int i" by (simp_all add: d)
  with le show "d \<in> {d. valid_date d \<and> date_le a d \<and> date_le d b}"
    using date_le_iff_toordinal[OF a v] date_le_iff_toordinal[OF v b] by simp
qed

lemma card_dates_of_interval:
  assumes a: "valid_date a" and b: "valid_date b"
  shows "card {d. valid_date d \<and> date_le a d \<and> date_le d b} = days_in_interval a b"
proof -
  have inj: "inj_on (date_plus a) {i. i < days_in_interval a b}"
  proof (rule inj_onI)
    fix i j
    assume i: "i \<in> {i. i < days_in_interval a b}" and j: "j \<in> {i. i < days_in_interval a b}"
      and e: "date_plus a i = date_plus a j"
    from i have "toordinal a + int i \<le> 3652059"
      using toordinal_le_max[OF b] by (simp add: days_in_interval_def)
    from date_plus_toordinal[OF a this]
    have oi: "toordinal (date_plus a i) = toordinal a + int i" by simp
    from j have "toordinal a + int j \<le> 3652059"
      using toordinal_le_max[OF b] by (simp add: days_in_interval_def)
    from date_plus_toordinal[OF a this]
    have oj: "toordinal (date_plus a j) = toordinal a + int j" by simp
    from oi oj have "toordinal a + int i = toordinal a + int j" unfolding e by simp
    then show "i = j" by simp
  qed
  show ?thesis
    unfolding dates_of_interval[OF a b] card_image[OF inj] by simp
qed

text \<open>
  So a run makes one page for each calendar date from its start date to December 31 of
  that year.
\<close>

lemma build_agenda_pdf_one_page_per_date:
  assumes "resolve_start e start_date = Inr D" and "valid_date D" and "year D < 9999"
    and "0 < spacing" and "can_write e output_path"
  shows "length (pages_of_run (build_agenda_pdf e output_path start_date spacing
                      header_font_size include_page_numbers top_margin)) =
         card {d. valid_date d \<and> date_le D d \<and> date_le d \<lparr>year = year D, month = 12, day = 31\<rparr>}"
  using build_agenda_pdf_page_count[OF assms]
    card_dates_of_interval[OF assms(2) end_of_year_valid(2)[OF assms(2)]]
  by simp

end
